theory Spec2Isabelle
  imports Complex_Main
begin

section \<open>Umbrella/worker supervision of the daemon command (lib/cli/daemoncommand.cpp)\<close>

text \<open>
  The development embeds the POSIX branch of \<open>daemoncommand.cpp\<close> built with
  \<open>HAVE_SYSTEMD\<close>: the two signal handlers, \<open>NotifyWatchdog\<close>, \<open>StartUnixWorker\<close>
  and the supervision part of \<open>DaemonCommand::Run\<close> (from the assignment of
  \<open>l_UmbrellaPid\<close> to the end of the function).  Process-wide statics become the fields of
  a record that is passed explicitly; everything the umbrella does to the outside world
  (\<open>kill\<close>, \<open>waitpid\<close>, \<open>fork\<close>, \<open>sd_notify\<close>, \<open>Log\<close>, \<open>Utility::Sleep\<close>) is appended to
  a trace held in that record, and everything the outside world answers (delivered signals,
  return values of system calls, clock readings) is an explicit argument.
\<close>

subsection \<open>Signal numbers and wait statuses\<close>

text \<open>
  The signal numbers and the two exit statuses are constants of the C library
  (\<open><signal.h>\<close>, \<open><stdlib.h>\<close>); the values are those of Linux on x86.  Of the signal
  numbers only their being pairwise distinct and different from \<open>-1\<close> is ever used.
\<close>

definition SIGHUP :: int where "SIGHUP = 1"
definition SIGINT :: int where "SIGINT = 2"
definition SIGUSR1 :: int where "SIGUSR1 = 10"
definition SIGUSR2 :: int where "SIGUSR2 = 12"
definition SIGTERM :: int where "SIGTERM = 15"
definition SIGCHLD :: int where "SIGCHLD = 17"

definition EXIT_SUCCESS :: int where "EXIT_SUCCESS = 0"
definition EXIT_FAILURE :: int where "EXIT_FAILURE = 1"

text \<open>
  Modelled from the spec: the wait status filled in by \<open>waitpid\<close> and the macros
  \<open>WIFSIGNALED\<close>, \<open>WTERMSIG\<close>, \<open>WEXITSTATUS\<close> of \<open><sys/wait.h>\<close>, which are not part of
  the repository.  A reported child either exited normally with a code or died from a signal.
\<close>

datatype wstatus = WExited int | WSignaled int

fun WIFSIGNALED :: "wstatus \<Rightarrow> bool" where
  "WIFSIGNALED (WSignaled s) = True"
| "WIFSIGNALED (WExited c) = False"

fun WTERMSIG :: "wstatus \<Rightarrow> int" where
  "WTERMSIG (WSignaled s) = s"
| "WTERMSIG (WExited c) = 0"

fun WEXITSTATUS :: "wstatus \<Rightarrow> int" where
  "WEXITSTATUS (WExited c) = c"
| "WEXITSTATUS (WSignaled s) = 0"

datatype errno = EINTR | ECHILD | EINVAL

text \<open>
  What one call of \<open>waitpid\<close> answers: its return value (the reaped pid, 0 under
  \<open>WNOHANG\<close> when nothing changed, or \<open>-1\<close>), the status it stored and the value of
  \<open>errno\<close> after the call.
\<close>

record wait_res =
  w_ret :: int
  w_status :: wstatus
  w_errno :: errno

subsection \<open>State of the umbrella process\<close>

datatype UnixWorkerState = Pending | LoadedConfig | Failed

datatype log_msg =
    LogSpawning
  | LogUninitFailed
  | LogForkFailed
  | LogSpawned int
  | LogWorkerLoaded
  | LogWorkerFailed
  | LogInitFailed
  | LogForwardTerm int int
  | LogReloadStart
  | LogReloadAborted
  | LogReloadDone int
  | LogWaitedForOld
  | LogForwardReopen int int
  | LogWorkerStopped int

datatype event =
    EKill int int
  | ESdNotify string
  | EWaitpid int bool wait_res
  | EFork int
  | ESleep
  | ELog log_msg
  | ESigBlock
  | ESigUnblock
  | ESigDefault int
  | EUninitializeBase
  | EInitializeBase

record umbrella =
  l_CurrentlyStartingUnixWorkerPid :: int
  l_CurrentlyStartingUnixWorkerState :: UnixWorkerState
  l_TermSignal :: int
  l_RequestedReload :: bool
  l_RequestedReopenLogs :: bool
  l_LastNotifiedWatchdog :: real
  trace :: "event list"

definition emit :: "event \<Rightarrow> umbrella \<Rightarrow> umbrella" where
  "emit e st = st\<lparr>trace := trace st @ [e]\<rparr>"

text \<open>The values the statics are initialised with.\<close>

definition umbrella_init :: umbrella where
  "umbrella_init =
     \<lparr>l_CurrentlyStartingUnixWorkerPid = -1,
      l_CurrentlyStartingUnixWorkerState = Pending,
      l_TermSignal = -1,
      l_RequestedReload = False,
      l_RequestedReopenLogs = False,
      l_LastNotifiedWatchdog = 0,
      trace = []\<rparr>"

subsection \<open>The signal handlers\<close>

datatype verify_failed = UnexpectedSignal int

text \<open>
  \<open>UmbrellaSignalHandler(num, info, _)\<close>; the second argument is \<open>info->si_pid\<close>.  The
  \<open>default\<close> branch is the failed \<open>VERIFY\<close>, which aborts the process.
\<close>

definition UmbrellaSignalHandler :: "int \<Rightarrow> int \<Rightarrow> umbrella \<Rightarrow> verify_failed + umbrella" where
  "UmbrellaSignalHandler num si_pid st =
     (if num = SIGUSR1 then Inr (st\<lparr>l_RequestedReopenLogs := True\<rparr>)
      else if num = SIGUSR2 then
        (if l_CurrentlyStartingUnixWorkerState st = Pending
            \<and> si_pid = l_CurrentlyStartingUnixWorkerPid st
         then Inr (st\<lparr>l_CurrentlyStartingUnixWorkerState := LoadedConfig\<rparr>)
         else Inr st)
      else if num = SIGCHLD then
        (if l_CurrentlyStartingUnixWorkerState st = Pending
            \<and> si_pid = l_CurrentlyStartingUnixWorkerPid st
         then Inr (st\<lparr>l_CurrentlyStartingUnixWorkerState := Failed\<rparr>)
         else Inr st)
      else if num = SIGINT \<or> num = SIGTERM then
        Inr ((emit (ESigDefault num) st)\<lparr>l_TermSignal := num\<rparr>)
      else if num = SIGHUP then Inr (st\<lparr>l_RequestedReload := True\<rparr>)
      else Inl (UnexpectedSignal num))"

record worker =
  l_UmbrellaPid :: int
  l_AllowedToWork :: bool
  shutdown_requested :: bool

text \<open>
  \<open>WorkerSignalHandler(num, info, _)\<close>.  \<open>Application::RequestShutdown()\<close> is recorded in
  the field \<open>shutdown_requested\<close>.
\<close>

definition WorkerSignalHandler :: "int \<Rightarrow> int \<Rightarrow> worker \<Rightarrow> verify_failed + worker" where
  "WorkerSignalHandler num si_pid w =
     (if num = SIGUSR2 then
        (if si_pid = l_UmbrellaPid w then Inr (w\<lparr>l_AllowedToWork := True\<rparr>) else Inr w)
      else if num = SIGINT \<or> num = SIGTERM then
        (if si_pid = l_UmbrellaPid w then Inr (w\<lparr>shutdown_requested := True\<rparr>) else Inr w)
      else Inl (UnexpectedSignal num))"

text \<open>A run of the worker's handler over the signals delivered to it, in order.\<close>

fun worker_signals :: "(int \<times> int) list \<Rightarrow> worker \<Rightarrow> verify_failed + worker" where
  "worker_signals [] w = Inr w"
| "worker_signals ((num, si_pid) # sigs) w =
     (case WorkerSignalHandler num si_pid w of
        Inl e \<Rightarrow> Inl e
      | Inr w' \<Rightarrow> worker_signals sigs w')"

subsection \<open>Handler runs that nest\<close>

text \<open>
  \<open>Run\<close> installs \<open>UmbrellaSignalHandler\<close> with a zeroed \<open>struct sigaction\<close> whose
  flags are \<open>SA_NOCLDSTOP | SA_RESTART | SA_SIGINFO\<close>: \<open>sa_mask\<close> is empty, so while the
  handler runs for one signal only that signal is blocked, and the handler of another
  signal can run between two of its statements.  In the \<open>SIGUSR2\<close> and \<open>SIGCHLD\<close> cases
  the handler first evaluates the condition of its \<open>if\<close> (the two loads) and then stores;
  \<open>handler_condition\<close> is that condition and \<open>handler_body\<close> the handler with the
  condition already evaluated.
\<close>

definition handler_condition :: "int \<Rightarrow> umbrella \<Rightarrow> bool" where
  "handler_condition si_pid st =
     (l_CurrentlyStartingUnixWorkerState st = Pending
      \<and> si_pid = l_CurrentlyStartingUnixWorkerPid st)"

definition handler_body :: "int \<Rightarrow> bool \<Rightarrow> umbrella \<Rightarrow> verify_failed + umbrella" where
  "handler_body num c st =
     (if num = SIGUSR1 then Inr (st\<lparr>l_RequestedReopenLogs := True\<rparr>)
      else if num = SIGUSR2 then
        (if c then Inr (st\<lparr>l_CurrentlyStartingUnixWorkerState := LoadedConfig\<rparr>) else Inr st)
      else if num = SIGCHLD then
        (if c then Inr (st\<lparr>l_CurrentlyStartingUnixWorkerState := Failed\<rparr>) else Inr st)
      else if num = SIGINT \<or> num = SIGTERM then
        Inr ((emit (ESigDefault num) st)\<lparr>l_TermSignal := num\<rparr>)
      else if num = SIGHUP then Inr (st\<lparr>l_RequestedReload := True\<rparr>)
      else Inl (UnexpectedSignal num))"

text \<open>The signals \<open>Run\<close> installs the handler for.\<close>

definition subscribed :: "int \<Rightarrow> bool" where
  "subscribed num =
     (num = SIGCHLD \<or> num = SIGUSR1 \<or> num = SIGUSR2 \<or> num = SIGINT \<or> num = SIGTERM
      \<or> num = SIGHUP)"

text \<open>
  \<open>Deliver num si_pid inner\<close>: the handler runs for signal \<open>num\<close> sent by \<open>si_pid\<close>, and
  between the evaluation of its condition and its store the handlers of the deliveries
  \<open>inner\<close> run, one after the other, each possibly interrupted in the same way.
  \<open>deliverable\<close> holds when no signal is delivered while its own handler is running.
\<close>

datatype delivery = Deliver int int "delivery list"

fun run_delivery :: "delivery \<Rightarrow> umbrella \<Rightarrow> verify_failed + umbrella"
  and run_deliveries :: "delivery list \<Rightarrow> umbrella \<Rightarrow> verify_failed + umbrella" where
  "run_delivery (Deliver num si_pid inner) st =
     (if \<not> subscribed num then Inl (UnexpectedSignal num)
      else
        (let c = handler_condition si_pid st
         in case run_deliveries inner st of
              Inl e \<Rightarrow> Inl e
            | Inr st' \<Rightarrow> handler_body num c st'))"
| "run_deliveries [] st = Inr st"
| "run_deliveries (d # ds) st =
     (case run_delivery d st of
        Inl e \<Rightarrow> Inl e
      | Inr st' \<Rightarrow> run_deliveries ds st')"

fun deliverable :: "int list \<Rightarrow> delivery \<Rightarrow> bool" where
  "deliverable blocked (Deliver num si_pid inner) =
     (num \<notin> set blocked \<and> list_all (deliverable (num # blocked)) inner)"

subsection \<open>The watchdog keepalive\<close>

text \<open>
  \<open>NotifyWatchdog()\<close>; the first argument is the value \<open>Utility::GetTime()\<close> returns.  The
  clock and \<open>l_LastNotifiedWatchdog\<close> are doubles in the source and real numbers here.
\<close>

definition NotifyWatchdog :: "real \<Rightarrow> umbrella \<Rightarrow> umbrella" where
  "NotifyWatchdog now st =
     (if now - l_LastNotifiedWatchdog st \<ge> 2.5
      then (emit (ESdNotify ''WATCHDOG=1'') st)\<lparr>l_LastNotifiedWatchdog := now\<rparr>
      else st)"

text \<open>
  A sequence recorder for the keepalive: \<open>NotifyWatchdog\<close> is called at each of the given
  clock readings, and the readings at which the call appended something to the trace are
  collected.
\<close>

fun watchdog_calls :: "real list \<Rightarrow> umbrella \<Rightarrow> real list \<times> umbrella" where
  "watchdog_calls [] st = ([], st)"
| "watchdog_calls (now # nows) st =
     (let st' = NotifyWatchdog now st;
          (ts, st'') = watchdog_calls nows st'
      in (if length (trace st) < length (trace st') then now # ts else ts, st''))"

subsection \<open>Outcomes of umbrella code\<close>

text \<open>
  A piece of umbrella code either returns a value, or ends the process (\<open>exit\<close>,
  \<open>_exit\<close>), or aborts on the failed \<open>VERIFY\<close> of the handler, or is still polling when
  the answers supplied by the environment are used up (\<open>Waiting\<close>): no loop of the
  source has a bound of its own.
\<close>

datatype 'a res =
    Ret 'a umbrella
  | Exit int umbrella
  | Abort verify_failed umbrella
  | Waiting umbrella

fun res_state :: "'a res \<Rightarrow> umbrella" where
  "res_state (Ret a st) = st"
| "res_state (Exit c st) = st"
| "res_state (Abort e st) = st"
| "res_state (Waiting st) = st"

text \<open>
  The umbrella's handler run over a batch of delivered signals \<open>(num, si_pid)\<close>.  In its
  \<open>SIGINT\<close> and \<open>SIGTERM\<close> case the handler restores the default action of the signal
  (the event \<open>ESigDefault\<close>), so a further delivery of that signal ends the process
  instead of running the handler.  A batch that delivers it again is run here all the
  same: the process then lives only up to that delivery, and its trace is the trace up to
  there.
\<close>

fun umbrella_signals :: "(int \<times> int) list \<Rightarrow> umbrella \<Rightarrow> unit res" where
  "umbrella_signals [] st = Ret () st"
| "umbrella_signals ((num, si_pid) # sigs) st =
     (case UmbrellaSignalHandler num si_pid st of
        Inl e \<Rightarrow> Abort e st
      | Inr st' \<Rightarrow> umbrella_signals sigs st')"

text \<open>
  \<open>while (waitpid(pid, nullptr, 0) == -1 && errno == EINTR) { NotifyWatchdog(); }\<close>,
  the loop that \<open>StartUnixWorker\<close> runs on a failed worker and \<open>Run\<close> on the old worker
  of a reload.  Each entry of the script is one call of \<open>waitpid\<close>: the signals handled
  while it blocked, its answer, and the clock reading of the \<open>NotifyWatchdog\<close> that follows
  an interrupted call.
\<close>

fun waitpid_retry :: "int \<Rightarrow> ((int \<times> int) list \<times> wait_res \<times> real) list \<Rightarrow> umbrella \<Rightarrow> unit res" where
  "waitpid_retry pid [] st = Waiting st"
| "waitpid_retry pid ((sigs, r, now) # ws) st =
     (case umbrella_signals sigs st of
        Ret u st1 \<Rightarrow>
          (let st2 = emit (EWaitpid pid False r) st1
           in if w_ret r = -1 \<and> w_errno r = EINTR
              then waitpid_retry pid ws (NotifyWatchdog now st2)
              else Ret () st2)
      | Exit c st1 \<Rightarrow> Exit c st1
      | Abort e st1 \<Rightarrow> Abort e st1
      | Waiting st1 \<Rightarrow> Waiting st1)"

subsection \<open>StartUnixWorker\<close>

text \<open>
  What the environment answers during one call of \<open>StartUnixWorker\<close>: whether
  \<open>Application::UninitializeBase\<close> and \<open>Application::InitializeBase\<close> return without
  throwing, what \<open>fork\<close> returns, the exit status of the child's side of the fork, one entry
  per round of the polling loop (the clock reading of its \<open>NotifyWatchdog\<close> and the signals
  handled before the state is loaded), the script of the reaping loop, and the signals
  handled before each of the two resetting stores.
\<close>

record spawn_env =
  uninit_ok :: bool
  fork_ret :: int
  child_exit :: int
  polls :: "(real \<times> (int \<times> int) list) list"
  reap :: "((int \<times> int) list \<times> wait_res \<times> real) list"
  sigs_reset_pid :: "(int \<times> int) list"
  sigs_reset_state :: "(int \<times> int) list"
  init_ok :: bool

text \<open>
  The loop \<open>for (;;)\<close> of the parent's side.  It returns the value \<open>pid\<close> has when the
  loop is left: the worker's pid after \<open>LoadedConfig\<close>, \<open>-1\<close> after \<open>Failed\<close> and the
  reaping of the worker.
\<close>

fun await_worker ::
  "int \<Rightarrow> (real \<times> (int \<times> int) list) list \<Rightarrow> ((int \<times> int) list \<times> wait_res \<times> real) list
     \<Rightarrow> umbrella \<Rightarrow> int res" where
  "await_worker pid [] rs st = Waiting st"
| "await_worker pid ((now, sigs) # ps) rs st =
     (case umbrella_signals sigs (NotifyWatchdog now st) of
        Ret u st1 \<Rightarrow>
          (case l_CurrentlyStartingUnixWorkerState st1 of
             LoadedConfig \<Rightarrow> Ret pid (emit (ELog LogWorkerLoaded) st1)
           | Failed \<Rightarrow>
               (case waitpid_retry pid rs (emit (ELog LogWorkerFailed) st1) of
                  Ret u' st2 \<Rightarrow> Ret (-1) st2
                | Exit c st2 \<Rightarrow> Exit c st2
                | Abort e st2 \<Rightarrow> Abort e st2
                | Waiting st2 \<Rightarrow> Waiting st2)
           | Pending \<Rightarrow> await_worker pid ps rs (emit ESleep st1))
      | Exit c st1 \<Rightarrow> Exit c st1
      | Abort e st1 \<Rightarrow> Abort e st1
      | Waiting st1 \<Rightarrow> Waiting st1)"

text \<open>
  The statements after the loop: the two stores that reset the flags, and
  \<open>Application::InitializeBase()\<close>.
\<close>

definition reset_flags :: "spawn_env \<Rightarrow> int \<Rightarrow> umbrella \<Rightarrow> int res" where
  "reset_flags env pid st =
     (case umbrella_signals (sigs_reset_pid env) st of
        Ret u st1 \<Rightarrow>
          (case umbrella_signals (sigs_reset_state env)
                  (st1\<lparr>l_CurrentlyStartingUnixWorkerPid := -1\<rparr>) of
             Ret u' st2 \<Rightarrow>
               (let st3 = emit EInitializeBase
                            (st2\<lparr>l_CurrentlyStartingUnixWorkerState := Pending\<rparr>)
                in if init_ok env then Ret pid st3
                   else Exit EXIT_FAILURE (emit (ELog LogInitFailed) st3))
           | Exit c st2 \<Rightarrow> Exit c st2
           | Abort e st2 \<Rightarrow> Abort e st2
           | Waiting st2 \<Rightarrow> Waiting st2)
      | Exit c st1 \<Rightarrow> Exit c st1
      | Abort e st1 \<Rightarrow> Abort e st1
      | Waiting st1 \<Rightarrow> Waiting st1)"

text \<open>
  \<open>StartUnixWorker(configs)\<close> as the umbrella runs it.  Where \<open>fork\<close> returns 0 the
  process is the new worker, which never returns from here: every path of that branch
  ends in \<open>_exit\<close>, with the status the environment supplies (the result of \<open>RunWorker\<close>,
  or \<open>EXIT_FAILURE\<close>).  The six signals are blocked from \<open>sigprocmask(SIG_BLOCK)\<close> to
  \<open>sigprocmask(SIG_UNBLOCK)\<close>, so no handler runs between them.
\<close>

definition StartUnixWorker :: "spawn_env \<Rightarrow> umbrella \<Rightarrow> int res" where
  "StartUnixWorker env st =
     (let st1 = emit EUninitializeBase (emit (ELog LogSpawning) st)
      in if \<not> uninit_ok env then Exit EXIT_FAILURE (emit (ELog LogUninitFailed) st1)
         else
           (let pid = fork_ret env;
                st2 = emit (EFork pid) (emit ESigBlock st1)
            in if pid = -1 then Exit EXIT_FAILURE (emit (ELog LogForkFailed) st2)
               else if pid = 0 then Exit (child_exit env) st2
               else
                 (let st3 = emit (ELog (LogSpawned pid))
                              (emit ESigUnblock (st2\<lparr>l_CurrentlyStartingUnixWorkerPid := pid\<rparr>))
                  in case await_worker pid (polls env) (reap env) st3 of
                       Ret pid' st4 \<Rightarrow> reset_flags env pid' st4
                     | Exit c st4 \<Rightarrow> Exit c st4
                     | Abort e st4 \<Rightarrow> Abort e st4
                     | Waiting st4 \<Rightarrow> Waiting st4)))"

subsection \<open>The supervision loop of DaemonCommand::Run\<close>

text \<open>The locals of \<open>Run\<close> that live across iterations.\<close>

record locals =
  currentWorker :: int
  requestedTermination :: bool
  notifiedTermination :: bool

text \<open>
  What the environment answers during one iteration of the loop: the clock reading of
  \<open>NotifyWatchdog\<close>, the signals handled before \<open>l_TermSignal\<close> is loaded, before
  \<open>l_RequestedReload\<close> is exchanged and before \<open>l_RequestedReopenLogs\<close> is exchanged,
  the answers to the \<open>StartUnixWorker\<close> of a reload, the script of the blocking wait for
  the old worker, and the answer of the final \<open>waitpid(currentWorker, &status, WNOHANG)\<close>.
\<close>

record iter_env =
  it_now :: real
  it_sigs_term :: "(int \<times> int) list"
  it_sigs_reload :: "(int \<times> int) list"
  it_spawn :: spawn_env
  it_wait_old :: "((int \<times> int) list \<times> wait_res \<times> real) list"
  it_sigs_reopen :: "(int \<times> int) list"
  it_wait :: wait_res

text \<open>\<open>if (!requestedTermination) { ... }\<close>: forwarding of a termination signal.\<close>

definition forward_termination :: "locals \<Rightarrow> umbrella \<Rightarrow> locals \<times> umbrella" where
  "forward_termination l st =
     (if \<not> requestedTermination l then
        (let termSig = l_TermSignal st
         in if termSig \<noteq> -1 then
              (let st1 = emit (EKill (currentWorker l) termSig)
                           (emit (ELog (LogForwardTerm termSig (currentWorker l))) st);
                   l1 = l\<lparr>requestedTermination := True\<rparr>
               in if \<not> notifiedTermination l1
                  then (l1\<lparr>notifiedTermination := True\<rparr>, emit (ESdNotify ''STOPPING=1'') st1)
                  else (l1, st1))
            else (l, st))
      else (l, st))"

text \<open>\<open>l_RequestedReload.exchange(false)\<close> and \<open>l_RequestedReopenLogs.exchange(false)\<close>.\<close>

definition exchange_RequestedReload :: "umbrella \<Rightarrow> bool \<times> umbrella" where
  "exchange_RequestedReload st = (l_RequestedReload st, st\<lparr>l_RequestedReload := False\<rparr>)"

definition exchange_RequestedReopenLogs :: "umbrella \<Rightarrow> bool \<times> umbrella" where
  "exchange_RequestedReopenLogs st =
     (l_RequestedReopenLogs st, st\<lparr>l_RequestedReopenLogs := False\<rparr>)"

text \<open>
  The body of \<open>if (l_RequestedReload.exchange(false)) { ... }\<close>, entered with the flag
  already exchanged.
\<close>

definition reload :: "iter_env \<Rightarrow> locals \<Rightarrow> umbrella \<Rightarrow> locals res" where
  "reload env l st =
     (case StartUnixWorker (it_spawn env)
             (emit (ESdNotify ''RELOADING=1'') (emit (ELog LogReloadStart) st)) of
        Ret nextWorker st1 \<Rightarrow>
          (if nextWorker = -1
           then Ret l (emit (ESdNotify ''READY=1'') (emit (ELog LogReloadAborted) st1))
           else
             (case waitpid_retry (currentWorker l) (it_wait_old env)
                     (emit (EKill (currentWorker l) SIGTERM)
                        (emit (ELog (LogReloadDone nextWorker)) st1)) of
                Ret u st2 \<Rightarrow>
                  Ret (l\<lparr>currentWorker := nextWorker\<rparr>)
                    (emit (ESdNotify ''READY=1'')
                       (emit (EKill nextWorker SIGUSR2) (emit (ELog LogWaitedForOld) st2)))
              | Exit c st2 \<Rightarrow> Exit c st2
              | Abort e st2 \<Rightarrow> Abort e st2
              | Waiting st2 \<Rightarrow> Waiting st2))
      | Exit c st1 \<Rightarrow> Exit c st1
      | Abort e st1 \<Rightarrow> Abort e st1
      | Waiting st1 \<Rightarrow> Waiting st1)"

definition reload_if_requested :: "iter_env \<Rightarrow> locals \<Rightarrow> umbrella \<Rightarrow> locals res" where
  "reload_if_requested env l st =
     (case exchange_RequestedReload st of
        (req, st1) \<Rightarrow> if req then reload env l st1 else Ret l st1)"

text \<open>\<open>if (l_RequestedReopenLogs.exchange(false)) { ... }\<close>.\<close>

definition reopen_logs_if_requested :: "locals \<Rightarrow> umbrella \<Rightarrow> umbrella" where
  "reopen_logs_if_requested l st =
     (case exchange_RequestedReopenLogs st of
        (req, st1) \<Rightarrow>
          if req
          then emit (EKill (currentWorker l) SIGUSR1)
                 (emit (ELog (LogForwardReopen SIGUSR1 (currentWorker l))) st1)
          else st1)"

text \<open>
  \<open>return WIFSIGNALED(status) ? 128 + WTERMSIG(status) : WEXITSTATUS(status);\<close>
\<close>

definition exit_code_of :: "wstatus \<Rightarrow> int" where
  "exit_code_of status =
     (if WIFSIGNALED status then 128 + WTERMSIG status else WEXITSTATUS status)"

text \<open>
  The final block of an iteration: the non-blocking \<open>waitpid\<close> and, when it reports the
  worker, the return from \<open>Run\<close>.  \<open>Some code\<close> is that return, \<open>None\<close> goes on to the
  \<open>Utility::Sleep(0.2)\<close> at the end of the iteration.
\<close>

definition check_worker :: "wait_res \<Rightarrow> locals \<Rightarrow> umbrella \<Rightarrow> (int option \<times> locals) \<times> umbrella" where
  "check_worker r l st =
     (let st1 = emit (EWaitpid (currentWorker l) True r) st
      in if w_ret r > 0 then
           (let st2 = emit (ELog (LogWorkerStopped (currentWorker l))) st1
            in if \<not> notifiedTermination l
               then ((Some (exit_code_of (w_status r)), l\<lparr>notifiedTermination := True\<rparr>),
                     emit (ESdNotify ''STOPPING=1'') st2)
               else ((Some (exit_code_of (w_status r)), l), st2))
         else ((None, l), st1))"

text \<open>One iteration of \<open>for (;;)\<close>, up to and without the final sleep.\<close>

definition iteration :: "iter_env \<Rightarrow> locals \<Rightarrow> umbrella \<Rightarrow> (int option \<times> locals) res" where
  "iteration env l st =
     (case umbrella_signals (it_sigs_term env) (NotifyWatchdog (it_now env) st) of
        Ret u st1 \<Rightarrow>
          (case forward_termination l st1 of
             (l1, st2) \<Rightarrow>
               (case umbrella_signals (it_sigs_reload env) st2 of
                  Ret u' st3 \<Rightarrow>
                    (case reload_if_requested env l1 st3 of
                       Ret l2 st4 \<Rightarrow>
                         (case umbrella_signals (it_sigs_reopen env) st4 of
                            Ret u'' st5 \<Rightarrow>
                              (case check_worker (it_wait env) l2 (reopen_logs_if_requested l2 st5) of
                                 (r, st6) \<Rightarrow> Ret r st6)
                          | Exit c st5 \<Rightarrow> Exit c st5
                          | Abort e st5 \<Rightarrow> Abort e st5
                          | Waiting st5 \<Rightarrow> Waiting st5)
                     | Exit c st4 \<Rightarrow> Exit c st4
                     | Abort e st4 \<Rightarrow> Abort e st4
                     | Waiting st4 \<Rightarrow> Waiting st4)
                | Exit c st3 \<Rightarrow> Exit c st3
                | Abort e st3 \<Rightarrow> Abort e st3
                | Waiting st3 \<Rightarrow> Waiting st3))
      | Exit c st1 \<Rightarrow> Exit c st1
      | Abort e st1 \<Rightarrow> Abort e st1
      | Waiting st1 \<Rightarrow> Waiting st1)"

text \<open>The loop: \<open>Ret code\<close> is \<open>Run\<close> returning \<open>code\<close>.\<close>

fun umbrella_loop :: "iter_env list \<Rightarrow> locals \<Rightarrow> umbrella \<Rightarrow> int res" where
  "umbrella_loop [] l st = Waiting st"
| "umbrella_loop (env # envs) l st =
     (case iteration env l st of
        Ret (Some code, l') st' \<Rightarrow> Ret code st'
      | Ret (None, l') st' \<Rightarrow> umbrella_loop envs l' (emit ESleep st')
      | Exit c st' \<Rightarrow> Exit c st'
      | Abort e st' \<Rightarrow> Abort e st'
      | Waiting st' \<Rightarrow> Waiting st')"

text \<open>
  \<open>DaemonCommand::Run\<close> from the first \<open>StartUnixWorker(configs)\<close> on.  The statements
  before it (option handling, pid file, \<open>Daemonize\<close>, \<open>CloseStdIO\<close>, the \<open>sigaction\<close>
  calls that install \<open>UmbrellaSignalHandler\<close> for the six signals) touch none of the
  state modelled here.
\<close>

record run_env =
  first_spawn :: spawn_env
  iterations :: "iter_env list"

definition Run :: "run_env \<Rightarrow> umbrella \<Rightarrow> int res" where
  "Run env st =
     (case StartUnixWorker (first_spawn env) st of
        Ret currentWorker0 st1 \<Rightarrow>
          (if currentWorker0 = -1 then Ret EXIT_FAILURE st1
           else umbrella_loop (iterations env)
                  \<lparr>currentWorker = currentWorker0,
                   requestedTermination = False,
                   notifiedTermination = False\<rparr>
                  (emit (ESdNotify ''READY=1'') (emit (EKill currentWorker0 SIGUSR2) st1)))
      | Exit c st1 \<Rightarrow> Exit c st1
      | Abort e st1 \<Rightarrow> Abort e st1
      | Waiting st1 \<Rightarrow> Waiting st1)"

subsection \<open>Traces\<close>

text \<open>
  The events that \<open>StartUnixWorker\<close>, the handler, \<open>NotifyWatchdog\<close> and the loop
  around \<open>waitpid\<close> can append to the trace: no \<open>kill\<close>, no notification other than the keepalive,
  and of the log lines only those of \<open>StartUnixWorker\<close>.
\<close>

fun spawn_log :: "log_msg \<Rightarrow> bool" where
  "spawn_log LogSpawning = True"
| "spawn_log LogUninitFailed = True"
| "spawn_log LogForkFailed = True"
| "spawn_log (LogSpawned p) = True"
| "spawn_log LogWorkerLoaded = True"
| "spawn_log LogWorkerFailed = True"
| "spawn_log LogInitFailed = True"
| "spawn_log m = False"

fun internal_event :: "event \<Rightarrow> bool" where
  "internal_event (EKill p s) = False"
| "internal_event (ESdNotify m) = (m = ''WATCHDOG=1'')"
| "internal_event (ELog m) = spawn_log m"
| "internal_event e = True"

text \<open>
  \<open>runs P st st'\<close>: from \<open>st\<close> to \<open>st'\<close> the trace has grown by events that all
  satisfy \<open>P\<close>.
\<close>

definition runs :: "(event \<Rightarrow> bool) \<Rightarrow> umbrella \<Rightarrow> umbrella \<Rightarrow> bool" where
  "runs P st st' = (\<exists>evs. trace st' = trace st @ evs \<and> list_all P evs)"

text \<open>Classes of events, for statements about what a trace contains.\<close>

fun is_kill :: "event \<Rightarrow> bool" where
  "is_kill (EKill p s) = True"
| "is_kill e = False"

fun is_forward :: "event \<Rightarrow> bool" where
  "is_forward (ELog (LogForwardTerm s p)) = True"
| "is_forward e = False"

definition is_stopping :: "event \<Rightarrow> bool" where
  "is_stopping e = (e = ESdNotify ''STOPPING=1'')"

text \<open>
  A \<open>kill\<close> with a signal other than \<open>SIGUSR1\<close> and \<open>SIGUSR2\<close>, which the umbrella
  sends to have the logs reopened and to let a worker continue: what remains is the
  forwarding of a termination signal and the \<open>SIGTERM\<close> a reload sends to the old worker.
  A \<open>kill\<close> with \<open>SIGUSR1\<close>.  The notification that a reload starts.
\<close>

fun is_term_kill :: "event \<Rightarrow> bool" where
  "is_term_kill (EKill p s) = (s \<noteq> SIGUSR1 \<and> s \<noteq> SIGUSR2)"
| "is_term_kill e = False"

fun is_reopen_kill :: "event \<Rightarrow> bool" where
  "is_reopen_kill (EKill p s) = (s = SIGUSR1)"
| "is_reopen_kill e = False"

definition is_reloading :: "event \<Rightarrow> bool" where
  "is_reloading e = (e = ESdNotify ''RELOADING=1'')"

text \<open>Events that are neither a forwarding, nor a "stopping", nor such a \<open>kill\<close>.\<close>

definition calm :: "event \<Rightarrow> bool" where
  "calm e = (\<not> is_forward e \<and> \<not> is_stopping e \<and> \<not> is_term_kill e)"

text \<open>
  How many forwardings of a termination signal, and how many "stopping" notifications,
  the latches in the locals still allow; \<open>spends a b\<close> holds when the trace has grown
  from \<open>a\<close> to \<open>b\<close> by no more forwardings and notifications than the latches of \<open>a\<close>
  allowed and those of \<open>b\<close> leave over, the \<open>kill\<close> calls counted with one more for
  each reload that started.
\<close>

definition forwards_left :: "locals \<Rightarrow> nat" where
  "forwards_left l = (if requestedTermination l then 0 else 1)"

definition stoppings_left :: "locals \<Rightarrow> nat" where
  "stoppings_left l = (if notifiedTermination l then 0 else 1)"

definition spends :: "umbrella \<times> locals \<Rightarrow> umbrella \<times> locals \<Rightarrow> bool" where
  "spends a b =
     (\<exists>evs. trace (fst b) = trace (fst a) @ evs
        \<and> length (filter is_forward evs) + forwards_left (snd b) \<le> forwards_left (snd a)
        \<and> length (filter is_term_kill evs) + forwards_left (snd b)
             \<le> forwards_left (snd a) + length (filter is_reloading evs)
        \<and> length (filter is_stopping evs) + stoppings_left (snd b) \<le> stoppings_left (snd a))"

subsection \<open>Requests and deliveries\<close>

text \<open>
  \<open>delivered num sigs\<close>: the signal \<open>num\<close> is among the signals \<open>sigs\<close>, given as pairs
  \<open>(num, si_pid)\<close>.  The signals in the scripts of a \<open>StartUnixWorker\<close> and of a reload,
  and the signals handled at the three points of an iteration.
\<close>

definition delivered :: "int \<Rightarrow> (int \<times> int) list \<Rightarrow> bool" where
  "delivered num sigs = (num \<in> fst ` set sigs)"

definition spawn_sigs :: "spawn_env \<Rightarrow> (int \<times> int) list" where
  "spawn_sigs sp =
     concat (map snd (polls sp)) @ concat (map fst (reap sp))
       @ sigs_reset_pid sp @ sigs_reset_state sp"

definition reload_sigs :: "iter_env \<Rightarrow> (int \<times> int) list" where
  "reload_sigs env = spawn_sigs (it_spawn env) @ concat (map fst (it_wait_old env))"

definition loop_sigs :: "iter_env \<Rightarrow> (int \<times> int) list" where
  "loop_sigs env = it_sigs_term env @ it_sigs_reload env @ it_sigs_reopen env"

text \<open>
  \<open>flags_within sigs st st'\<close>: from \<open>st\<close> to \<open>st'\<close> neither request flag has been
  cleared, a flag has been set only if its signal is among \<open>sigs\<close>, and \<open>l_TermSignal\<close>
  has not become \<open>SIGUSR1\<close>.
\<close>

definition flags_within :: "(int \<times> int) list \<Rightarrow> umbrella \<Rightarrow> umbrella \<Rightarrow> bool" where
  "flags_within sigs st st' =
     ((l_RequestedReload st \<longrightarrow> l_RequestedReload st')
      \<and> (l_RequestedReload st' \<longrightarrow> l_RequestedReload st \<or> delivered SIGHUP sigs)
      \<and> (l_RequestedReopenLogs st \<longrightarrow> l_RequestedReopenLogs st')
      \<and> (l_RequestedReopenLogs st' \<longrightarrow> l_RequestedReopenLogs st \<or> delivered SIGUSR1 sigs)
      \<and> (l_TermSignal st \<noteq> SIGUSR1 \<longrightarrow> l_TermSignal st' \<noteq> SIGUSR1))"

text \<open>
  Events that are neither the start of a reload nor a \<open>kill\<close> with \<open>SIGUSR1\<close>.
  \<open>caused R L a b\<close>: the trace has grown from \<open>a\<close> to \<open>b\<close>, by the start of a
  reload only if \<open>R\<close> holds and by a \<open>kill\<close> with \<open>SIGUSR1\<close> only if \<open>L\<close> holds.
\<close>

definition idle :: "event \<Rightarrow> bool" where
  "idle e = (\<not> is_reloading e \<and> \<not> is_reopen_kill e)"

definition caused :: "bool \<Rightarrow> bool \<Rightarrow> umbrella \<Rightarrow> umbrella \<Rightarrow> bool" where
  "caused R L a b =
     (\<exists>evs. trace b = trace a @ evs
        \<and> (filter is_reloading evs \<noteq> [] \<longrightarrow> R)
        \<and> (filter is_reopen_kill evs \<noteq> [] \<longrightarrow> L))"

text \<open>
  \<open>pending_after sigs st\<close>: the requests of the signals \<open>sigs\<close> are pending in \<open>st\<close>;
  \<open>kept st st'\<close>: the requests that are pending in \<open>st\<close> are pending in \<open>st'\<close>.
\<close>

definition pending_after :: "(int \<times> int) list \<Rightarrow> umbrella \<Rightarrow> bool" where
  "pending_after sigs st =
     ((delivered SIGHUP sigs \<longrightarrow> l_RequestedReload st)
      \<and> (delivered SIGUSR1 sigs \<longrightarrow> l_RequestedReopenLogs st))"

definition kept :: "umbrella \<Rightarrow> umbrella \<Rightarrow> bool" where
  "kept st st' =
     ((l_RequestedReload st \<longrightarrow> l_RequestedReload st')
      \<and> (l_RequestedReopenLogs st \<longrightarrow> l_RequestedReopenLogs st'))"

subsection \<open>Example environments\<close>

text \<open>
  A spawn whose worker reports its loaded configuration in the second polling round, and
  a spawn whose worker dies in the second polling round and is reaped by the second call
  of \<open>waitpid\<close>, the first one being interrupted.
\<close>

definition spawn_loads :: "int \<Rightarrow> spawn_env" where
  "spawn_loads pid =
     \<lparr>uninit_ok = True, fork_ret = pid, child_exit = 0,
      polls = [(100, []), (100.2, [(SIGUSR2, pid)])],
      reap = [], sigs_reset_pid = [], sigs_reset_state = [], init_ok = True\<rparr>"

definition spawn_fails :: "int \<Rightarrow> spawn_env" where
  "spawn_fails pid =
     \<lparr>uninit_ok = True, fork_ret = pid, child_exit = 0,
      polls = [(100, []), (100.2, [(SIGCHLD, pid)])],
      reap = [([], \<lparr>w_ret = -1, w_status = WExited 0, w_errno = EINTR\<rparr>, 100.3),
              ([], \<lparr>w_ret = pid, w_status = WExited 1, w_errno = EINTR\<rparr>, 100.4)],
      sigs_reset_pid = [], sigs_reset_state = [], init_ok = True\<rparr>"

text \<open>
  Answers of \<open>waitpid\<close>: nothing to report under \<open>WNOHANG\<close>, an interrupted blocking
  call, and a reaped child with its status.
\<close>

definition still_running :: wait_res where
  "still_running = \<lparr>w_ret = 0, w_status = WExited 0, w_errno = EINTR\<rparr>"

definition interrupted :: wait_res where
  "interrupted = \<lparr>w_ret = -1, w_status = WExited 0, w_errno = EINTR\<rparr>"

definition reported :: "int \<Rightarrow> wstatus \<Rightarrow> wait_res" where
  "reported pid status = \<lparr>w_ret = pid, w_status = status, w_errno = EINTR\<rparr>"

text \<open>
  The locals as \<open>Run\<close> initialises them, an iteration in which no signal arrives, and an
  iteration in which a \<open>SIGHUP\<close> arrives before \<open>l_RequestedReload\<close> is exchanged.
\<close>

definition locals_init :: "int \<Rightarrow> locals" where
  "locals_init pid =
     \<lparr>currentWorker = pid, requestedTermination = False, notifiedTermination = False\<rparr>"

definition iter_idle :: "real \<Rightarrow> wait_res \<Rightarrow> iter_env" where
  "iter_idle now r =
     \<lparr>it_now = now, it_sigs_term = [], it_sigs_reload = [], it_spawn = spawn_loads 1,
      it_wait_old = [], it_sigs_reopen = [], it_wait = r\<rparr>"

definition iter_reload ::
  "real \<Rightarrow> spawn_env \<Rightarrow> ((int \<times> int) list \<times> wait_res \<times> real) list \<Rightarrow> wait_res \<Rightarrow> iter_env" where
  "iter_reload now sp ws r =
     \<lparr>it_now = now, it_sigs_term = [], it_sigs_reload = [(SIGHUP, 1)], it_spawn = sp,
      it_wait_old = ws, it_sigs_reopen = [], it_wait = r\<rparr>"

text \<open>An iteration in which signals arrive before \<open>l_TermSignal\<close> is loaded.\<close>

definition iter_signal :: "real \<Rightarrow> (int \<times> int) list \<Rightarrow> wait_res \<Rightarrow> iter_env" where
  "iter_signal now sigs r =
     \<lparr>it_now = now, it_sigs_term = sigs, it_sigs_reload = [], it_spawn = spawn_loads 1,
      it_wait_old = [], it_sigs_reopen = [], it_wait = r\<rparr>"

text \<open>
  A spawn during whose first polling round a \<open>SIGHUP\<close> is handled, the worker reporting
  its loaded configuration in the second round.
\<close>

definition spawn_loads_hup :: "int \<Rightarrow> spawn_env" where
  "spawn_loads_hup pid =
     \<lparr>uninit_ok = True, fork_ret = pid, child_exit = 0,
      polls = [(100, [(SIGHUP, 1)]), (100.2, [(SIGUSR2, pid)])],
      reap = [], sigs_reset_pid = [], sigs_reset_state = [], init_ok = True\<rparr>"

text \<open>
  An iteration in which a \<open>SIGUSR1\<close> arrives before \<open>l_TermSignal\<close> is loaded and two
  \<open>SIGHUP\<close> arrive before \<open>l_RequestedReload\<close> is exchanged; the new worker of the reload
  loads its configuration and the old worker is reaped by the first \<open>waitpid\<close>.
\<close>

definition iter_requests :: iter_env where
  "iter_requests =
     \<lparr>it_now = 100, it_sigs_term = [(SIGUSR1, 1)], it_sigs_reload = [(SIGHUP, 1), (SIGHUP, 2)],
      it_spawn = spawn_loads 4712,
      it_wait_old = [([], reported 4711 (WExited 0), 100.6)],
      it_sigs_reopen = [], it_wait = still_running\<rparr>"

section \<open>Properties\<close>

lemmas sig_defs = SIGHUP_def SIGINT_def SIGUSR1_def SIGUSR2_def SIGTERM_def SIGCHLD_def

subsection \<open>The umbrella's handler and the worker start state\<close>

lemma UmbrellaSignalHandler_state:
  "UmbrellaSignalHandler num si_pid st = Inr st' \<Longrightarrow>
     l_CurrentlyStartingUnixWorkerState st' = l_CurrentlyStartingUnixWorkerState st
     \<or> (l_CurrentlyStartingUnixWorkerState st = Pending
        \<and> si_pid = l_CurrentlyStartingUnixWorkerPid st
        \<and> (num = SIGUSR2 \<and> l_CurrentlyStartingUnixWorkerState st' = LoadedConfig
           \<or> num = SIGCHLD \<and> l_CurrentlyStartingUnixWorkerState st' = Failed))"
  by (auto simp: UmbrellaSignalHandler_def emit_def split: if_splits)

text \<open>
  Claim C5.  A load-succeeded (\<open>SIGUSR2\<close>) or child-exited (\<open>SIGCHLD\<close>) signal whose
  sender is not the worker currently being started, or that arrives when the start state
  is no longer \<open>Pending\<close>, leaves the start state unchanged, whatever that state is; the
  handler then changes nothing at all.
\<close>

theorem foreign_or_stale_signal_ignored:
  "num = SIGUSR2 \<or> num = SIGCHLD \<Longrightarrow>
   si_pid \<noteq> l_CurrentlyStartingUnixWorkerPid st
     \<or> l_CurrentlyStartingUnixWorkerState st \<noteq> Pending \<Longrightarrow>
   UmbrellaSignalHandler num si_pid st = Inr st"
  by (auto simp: UmbrellaSignalHandler_def sig_defs)

theorem foreign_or_stale_signal_ignored_witness:
  "(SIGUSR2 = SIGUSR2 \<or> SIGUSR2 = SIGCHLD)
   \<and> 7 \<noteq> l_CurrentlyStartingUnixWorkerPid
              (umbrella_init\<lparr>l_CurrentlyStartingUnixWorkerPid := 42\<rparr>)
   \<and> UmbrellaSignalHandler SIGUSR2 7 (umbrella_init\<lparr>l_CurrentlyStartingUnixWorkerPid := 42\<rparr>)
       = Inr (umbrella_init\<lparr>l_CurrentlyStartingUnixWorkerPid := 42\<rparr>)"
  using foreign_or_stale_signal_ignored
          [of SIGUSR2 7 "umbrella_init\<lparr>l_CurrentlyStartingUnixWorkerPid := 42\<rparr>"]
  by (simp add: umbrella_init_def)

subsection \<open>Handler runs that nest\<close>

lemma handler_body_condition:
  "handler_body num (handler_condition si_pid st) st = UmbrellaSignalHandler num si_pid st"
  by (simp add: handler_body_def handler_condition_def UmbrellaSignalHandler_def)

lemma UmbrellaSignalHandler_unexpected:
  "\<not> subscribed num \<Longrightarrow> UmbrellaSignalHandler num si_pid st = Inl (UnexpectedSignal num)"
  by (simp add: UmbrellaSignalHandler_def subscribed_def)

lemma run_delivery_alone:
  "run_delivery (Deliver num si_pid []) st = UmbrellaSignalHandler num si_pid st"
  by (cases "subscribed num")
     (simp_all add: handler_body_condition UmbrellaSignalHandler_unexpected)

text \<open>
  Claim C4.  The handler stores \<open>LoadedConfig\<close> or \<open>Failed\<close> only after it has seen the
  start state \<open>Pending\<close>, but the check and the store are two steps.  When the worker
  being started sends \<open>SIGUSR2\<close> and then dies, and its \<open>SIGCHLD\<close> is delivered while
  the \<open>SIGUSR2\<close> handler is between its check and its store, the inner handler moves the
  start state from \<open>Pending\<close> to \<open>Failed\<close> and the outer one then moves it from
  \<open>Failed\<close> to \<open>LoadedConfig\<close>.
\<close>

theorem nested_handlers_flip_start_state:
  "deliverable [] (Deliver SIGUSR2 4712 [Deliver SIGCHLD 4712 []])
   \<and> l_CurrentlyStartingUnixWorkerState
         (umbrella_init\<lparr>l_CurrentlyStartingUnixWorkerPid := 4712\<rparr>) = Pending
   \<and> handler_condition 4712 (umbrella_init\<lparr>l_CurrentlyStartingUnixWorkerPid := 4712\<rparr>)
   \<and> run_deliveries [Deliver SIGCHLD 4712 []]
         (umbrella_init\<lparr>l_CurrentlyStartingUnixWorkerPid := 4712\<rparr>)
       = Inr (umbrella_init\<lparr>l_CurrentlyStartingUnixWorkerPid := 4712,
                            l_CurrentlyStartingUnixWorkerState := Failed\<rparr>)
   \<and> handler_body SIGUSR2 True
         (umbrella_init\<lparr>l_CurrentlyStartingUnixWorkerPid := 4712,
                        l_CurrentlyStartingUnixWorkerState := Failed\<rparr>)
       = Inr (umbrella_init\<lparr>l_CurrentlyStartingUnixWorkerPid := 4712,
                            l_CurrentlyStartingUnixWorkerState := LoadedConfig\<rparr>)
   \<and> run_delivery (Deliver SIGUSR2 4712 [Deliver SIGCHLD 4712 []])
         (umbrella_init\<lparr>l_CurrentlyStartingUnixWorkerPid := 4712\<rparr>)
       = Inr (umbrella_init\<lparr>l_CurrentlyStartingUnixWorkerPid := 4712,
                            l_CurrentlyStartingUnixWorkerState := LoadedConfig\<rparr>)"
proof -
  let ?s = "umbrella_init\<lparr>l_CurrentlyStartingUnixWorkerPid := 4712\<rparr>"
  let ?sF = "umbrella_init\<lparr>l_CurrentlyStartingUnixWorkerPid := 4712,
                           l_CurrentlyStartingUnixWorkerState := Failed\<rparr>"
  let ?sL = "umbrella_init\<lparr>l_CurrentlyStartingUnixWorkerPid := 4712,
                           l_CurrentlyStartingUnixWorkerState := LoadedConfig\<rparr>"
  have sub: "subscribed SIGUSR2" "subscribed SIGCHLD"
    by (simp_all add: subscribed_def)
  have ne: "SIGCHLD \<noteq> SIGUSR2"
    by (simp add: sig_defs)
  have p: "l_CurrentlyStartingUnixWorkerState ?s = Pending"
    by (simp add: umbrella_init_def)
  have c: "handler_condition 4712 ?s"
    by (simp add: handler_condition_def umbrella_init_def)
  have b1: "handler_body SIGCHLD True ?s = Inr ?sF"
    by (simp add: handler_body_def sig_defs)
  have b2: "handler_body SIGUSR2 True ?sF = Inr ?sL"
    by (simp add: handler_body_def sig_defs)
  have inner: "run_deliveries [Deliver SIGCHLD 4712 []] ?s = Inr ?sF"
    by (simp add: sub c b1)
  have outer: "run_delivery (Deliver SIGUSR2 4712 [Deliver SIGCHLD 4712 []]) ?s = Inr ?sL"
    by (simp add: sub c inner b2 del: run_deliveries.simps)
  have d: "deliverable [] (Deliver SIGUSR2 4712 [Deliver SIGCHLD 4712 []])"
    by (simp add: ne)
  from d p c inner b2 outer show ?thesis by blast
qed

subsection \<open>The worker's handler\<close>

lemma WorkerSignalHandler_umbrella_pid:
  "WorkerSignalHandler num si_pid w = Inr w' \<Longrightarrow> l_UmbrellaPid w' = l_UmbrellaPid w"
  by (auto simp: WorkerSignalHandler_def split: if_splits)

lemma WorkerSignalHandler_foreign:
  "num = SIGUSR2 \<or> num = SIGINT \<or> num = SIGTERM \<Longrightarrow> si_pid \<noteq> l_UmbrellaPid w \<Longrightarrow>
   WorkerSignalHandler num si_pid w = Inr w"
  by (auto simp: WorkerSignalHandler_def)

lemma WorkerSignalHandler_change:
  "WorkerSignalHandler num si_pid w = Inr w' \<Longrightarrow> w' \<noteq> w \<Longrightarrow> si_pid = l_UmbrellaPid w"
  by (auto simp: WorkerSignalHandler_def split: if_splits)

lemma worker_signals_filter:
  "\<forall>(num, si_pid) \<in> set sigs. num = SIGUSR2 \<or> num = SIGINT \<or> num = SIGTERM \<Longrightarrow>
   worker_signals sigs w
     = worker_signals (filter (\<lambda>(num, si_pid). si_pid = l_UmbrellaPid w) sigs) w"
proof (induction sigs arbitrary: w)
  case Nil
  show ?case by simp
next
  case (Cons a sigs)
  obtain num si_pid where a: "a = (num, si_pid)" by (cases a)
  from Cons.prems a have num: "num = SIGUSR2 \<or> num = SIGINT \<or> num = SIGTERM"
    and rest: "\<forall>(num, si_pid) \<in> set sigs. num = SIGUSR2 \<or> num = SIGINT \<or> num = SIGTERM"
    by auto
  show ?case
  proof (cases "si_pid = l_UmbrellaPid w")
    case False
    with num have "WorkerSignalHandler num si_pid w = Inr w"
      by (rule WorkerSignalHandler_foreign)
    with False a Cons.IH [OF rest] show ?thesis by simp
  next
    case True
    show ?thesis
    proof (cases "WorkerSignalHandler num si_pid w")
      case (Inl e)
      with True a show ?thesis by simp
    next
      case (Inr w')
      then have "l_UmbrellaPid w' = l_UmbrellaPid w"
        by (rule WorkerSignalHandler_umbrella_pid)
      with Inr True a Cons.IH [OF rest, of w'] show ?thesis by simp
    qed
  qed
qed

text \<open>
  Claim C8.  The worker's handler changes the worker's state only for a signal sent by
  the umbrella: \<open>SIGUSR2\<close> from the umbrella sets \<open>l_AllowedToWork\<close>, \<open>SIGINT\<close> and
  \<open>SIGTERM\<close> from the umbrella request the shutdown, any change of the state implies that
  the sender was the umbrella, and a \<open>SIGUSR2\<close>, \<open>SIGINT\<close> or \<open>SIGTERM\<close> from another
  sender leaves the state as it was.  Hence a run over any sequence of these signals ends
  as the run over the subsequence sent by the umbrella does.
\<close>

theorem worker_obeys_only_umbrella:
  "(WorkerSignalHandler SIGUSR2 (l_UmbrellaPid w) w = Inr (w\<lparr>l_AllowedToWork := True\<rparr>))
   \<and> (WorkerSignalHandler SIGINT (l_UmbrellaPid w) w = Inr (w\<lparr>shutdown_requested := True\<rparr>))
   \<and> (WorkerSignalHandler SIGTERM (l_UmbrellaPid w) w = Inr (w\<lparr>shutdown_requested := True\<rparr>))
   \<and> (WorkerSignalHandler num si_pid w = Inr w' \<and> w' \<noteq> w \<longrightarrow> si_pid = l_UmbrellaPid w)
   \<and> ((num = SIGUSR2 \<or> num = SIGINT \<or> num = SIGTERM) \<and> si_pid \<noteq> l_UmbrellaPid w
        \<longrightarrow> WorkerSignalHandler num si_pid w = Inr w)
   \<and> ((\<forall>(num, si_pid) \<in> set sigs. num = SIGUSR2 \<or> num = SIGINT \<or> num = SIGTERM)
        \<longrightarrow> worker_signals sigs w
            = worker_signals (filter (\<lambda>(num, si_pid). si_pid = l_UmbrellaPid w) sigs) w)"
proof -
  have 1: "WorkerSignalHandler SIGUSR2 (l_UmbrellaPid w) w = Inr (w\<lparr>l_AllowedToWork := True\<rparr>)"
    by (simp add: WorkerSignalHandler_def)
  have 2: "WorkerSignalHandler SIGINT (l_UmbrellaPid w) w = Inr (w\<lparr>shutdown_requested := True\<rparr>)"
    by (simp add: WorkerSignalHandler_def sig_defs)
  have 3: "WorkerSignalHandler SIGTERM (l_UmbrellaPid w) w = Inr (w\<lparr>shutdown_requested := True\<rparr>)"
    by (simp add: WorkerSignalHandler_def sig_defs)
  from 1 2 3 show ?thesis
    using WorkerSignalHandler_change [of num si_pid w w']
      WorkerSignalHandler_foreign [of num si_pid w] worker_signals_filter [of sigs w]
    by blast
qed

theorem worker_obeys_only_umbrella_witness:
  "WorkerSignalHandler SIGUSR2 100
       \<lparr>l_UmbrellaPid = 100, l_AllowedToWork = False, shutdown_requested = False\<rparr>
     = Inr \<lparr>l_UmbrellaPid = 100, l_AllowedToWork = True, shutdown_requested = False\<rparr>
   \<and> WorkerSignalHandler SIGTERM 7
       \<lparr>l_UmbrellaPid = 100, l_AllowedToWork = False, shutdown_requested = False\<rparr>
     = Inr \<lparr>l_UmbrellaPid = 100, l_AllowedToWork = False, shutdown_requested = False\<rparr>
   \<and> worker_signals [(SIGUSR2, 5), (SIGTERM, 6), (SIGUSR2, 100), (SIGINT, 1)]
       \<lparr>l_UmbrellaPid = 100, l_AllowedToWork = False, shutdown_requested = False\<rparr>
     = worker_signals [(SIGUSR2, 100)]
       \<lparr>l_UmbrellaPid = 100, l_AllowedToWork = False, shutdown_requested = False\<rparr>"
  using worker_obeys_only_umbrella
          [of "\<lparr>l_UmbrellaPid = 100, l_AllowedToWork = False, shutdown_requested = False\<rparr>"
              SIGTERM 7
              "\<lparr>l_UmbrellaPid = 100, l_AllowedToWork = False, shutdown_requested = False\<rparr>"
              "[(SIGUSR2, 5), (SIGTERM, 6), (SIGUSR2, 100), (SIGINT, 1)]"]
  by (simp add: sig_defs)

subsection \<open>Runs of the parts of StartUnixWorker\<close>

lemma runs_refl [simp]: "runs P st st"
  by (simp add: runs_def)

lemma runs_trans: "runs P a b \<Longrightarrow> runs P b c \<Longrightarrow> runs P a c"
  by (auto simp: runs_def)

lemma runs_emit: "P e \<Longrightarrow> runs P st (emit e st)"
  by (simp add: runs_def emit_def)

lemma runs_then_emit: "runs P a b \<Longrightarrow> P e \<Longrightarrow> runs P a (emit e b)"
  by (blast intro: runs_trans runs_emit)

lemma runs_store_pid: "runs P st (st\<lparr>l_CurrentlyStartingUnixWorkerPid := p\<rparr>)"
  by (simp add: runs_def)

lemma runs_reset_state: "runs P st (st\<lparr>l_CurrentlyStartingUnixWorkerState := Pending\<rparr>)"
  by (simp add: runs_def)

lemma runs_mono: "runs P a b \<Longrightarrow> (\<And>e. P e \<Longrightarrow> Q e) \<Longrightarrow> runs Q a b"
  by (auto simp: runs_def list_all_iff)

lemma NotifyWatchdog_runs: "runs internal_event st (NotifyWatchdog now st)"
proof -
  have "trace (NotifyWatchdog now st) = trace st
        \<or> trace (NotifyWatchdog now st) = trace st @ [ESdNotify ''WATCHDOG=1'']"
    by (simp add: NotifyWatchdog_def emit_def)
  then show ?thesis
    by (auto simp: runs_def)
qed

lemma UmbrellaSignalHandler_trace:
  "UmbrellaSignalHandler num p st = Inr st' \<Longrightarrow>
     trace st' = trace st \<or> trace st' = trace st @ [ESigDefault num]"
  by (auto simp: UmbrellaSignalHandler_def emit_def split: if_splits)

lemma UmbrellaSignalHandler_runs:
  assumes "UmbrellaSignalHandler num p st = Inr st'"
  shows "runs internal_event st st'"
  using UmbrellaSignalHandler_trace [OF assms]
  by (auto simp: runs_def)

lemma umbrella_signals_runs:
  "runs internal_event st (res_state (umbrella_signals sigs st))"
proof (induction sigs arbitrary: st)
  case Nil
  show ?case by simp
next
  case (Cons a sigs)
  obtain num p where a: "a = (num, p)" by (cases a)
  show ?case
  proof (cases "UmbrellaSignalHandler num p st")
    case (Inl e)
    with a show ?thesis by simp
  next
    case (Inr st1)
    from UmbrellaSignalHandler_runs [OF Inr] Cons.IH [of st1] Inr a
    show ?thesis by (simp add: runs_trans)
  qed
qed

lemma umbrella_signals_not_exit [simp]:
  "umbrella_signals sigs st \<noteq> Exit c st'" "umbrella_signals sigs st \<noteq> Waiting st'"
  by (induction sigs arbitrary: st) (auto split: sum.splits)

lemma umbrella_signals_Ret_runs:
  "umbrella_signals sigs st = Ret u st' \<Longrightarrow> runs internal_event st st'"
  using umbrella_signals_runs [of st sigs] by simp

lemma waitpid_retry_runs:
  "runs internal_event st (res_state (waitpid_retry pid ws st))"
proof (induction ws arbitrary: st)
  case Nil
  show ?case by simp
next
  case (Cons a ws)
  obtain sigs r now where a: "a = (sigs, r, now)" by (cases a)
  have s: "runs internal_event st (res_state (umbrella_signals sigs st))"
    by (rule umbrella_signals_runs)
  show ?case
  proof (cases "umbrella_signals sigs st")
    case (Ret u st1)
    with s have 1: "runs internal_event st st1" by simp
    have 2: "runs internal_event st (emit (EWaitpid pid False r) st1)"
      by (rule runs_then_emit [OF 1]) simp
    have 3: "runs internal_event st (NotifyWatchdog now (emit (EWaitpid pid False r) st1))"
      by (rule runs_trans [OF 2 NotifyWatchdog_runs])
    from Ret a 2 runs_trans [OF 3 Cons.IH] show ?thesis
      by (simp add: Let_def)
  qed (use s a in simp_all)
qed

lemma await_worker_runs:
  "runs internal_event st (res_state (await_worker pid ps rs st))"
proof (induction ps arbitrary: st)
  case Nil
  show ?case by simp
next
  case (Cons a ps)
  obtain now sigs where a: "a = (now, sigs)" by (cases a)
  have s: "runs internal_event st (res_state (umbrella_signals sigs (NotifyWatchdog now st)))"
    by (rule runs_trans [OF NotifyWatchdog_runs umbrella_signals_runs])
  show ?case
  proof (cases "umbrella_signals sigs (NotifyWatchdog now st)")
    case (Ret u st1)
    with s have 1: "runs internal_event st st1" by simp
    show ?thesis
    proof (cases "l_CurrentlyStartingUnixWorkerState st1")
      case Pending
      have "runs internal_event st (emit ESleep st1)"
        by (rule runs_then_emit [OF 1]) simp
      from runs_trans [OF this Cons.IH] Ret a Pending show ?thesis by simp
    next
      case LoadedConfig
      have "runs internal_event st (emit (ELog LogWorkerLoaded) st1)"
        by (rule runs_then_emit [OF 1]) simp
      with Ret a LoadedConfig show ?thesis by simp
    next
      case Failed
      have "runs internal_event st (emit (ELog LogWorkerFailed) st1)"
        by (rule runs_then_emit [OF 1]) simp
      from runs_trans [OF this waitpid_retry_runs [of _ pid rs]] Ret a Failed
      show ?thesis by (auto split: res.splits)
    qed
  qed (use s a in simp_all)
qed

lemma UmbrellaSignalHandler_pid:
  "UmbrellaSignalHandler num p st = Inr st' \<Longrightarrow>
     l_CurrentlyStartingUnixWorkerPid st' = l_CurrentlyStartingUnixWorkerPid st"
  by (auto simp: UmbrellaSignalHandler_def emit_def split: if_splits)

lemma umbrella_signals_pid:
  "umbrella_signals sigs st = Ret u st' \<Longrightarrow>
     l_CurrentlyStartingUnixWorkerPid st' = l_CurrentlyStartingUnixWorkerPid st"
proof (induction sigs arbitrary: st)
  case Nil
  then show ?case by simp
next
  case (Cons a sigs)
  obtain num p where a: "a = (num, p)" by (cases a)
  from Cons.prems a obtain st1 where h: "UmbrellaSignalHandler num p st = Inr st1"
    and r: "umbrella_signals sigs st1 = Ret u st'"
    by (auto split: sum.splits)
  from UmbrellaSignalHandler_pid [OF h] Cons.IH [OF r] show ?case by simp
qed

lemma reset_flags_runs: "runs internal_event st (res_state (reset_flags env pid st))"
proof (cases "umbrella_signals (sigs_reset_pid env) st")
  case (Ret u st1)
  from umbrella_signals_Ret_runs [OF Ret] have 1: "runs internal_event st st1" .
  let ?st1' = "st1\<lparr>l_CurrentlyStartingUnixWorkerPid := -1\<rparr>"
  have 2: "runs internal_event st ?st1'"
    by (rule runs_trans [OF 1 runs_store_pid])
  have 3: "runs internal_event st (res_state (umbrella_signals (sigs_reset_state env) ?st1'))"
    by (rule runs_trans [OF 2 umbrella_signals_runs])
  show ?thesis
  proof (cases "umbrella_signals (sigs_reset_state env) ?st1'")
    case (Ret u' st2)
    with 3 have "runs internal_event st st2" by simp
    then have "runs internal_event st (st2\<lparr>l_CurrentlyStartingUnixWorkerState := Pending\<rparr>)"
      by (rule runs_trans [OF _ runs_reset_state])
    then have 4: "runs internal_event st
                    (emit EInitializeBase (st2\<lparr>l_CurrentlyStartingUnixWorkerState := Pending\<rparr>))"
      by (rule runs_then_emit) simp
    then have "runs internal_event st
                    (emit (ELog LogInitFailed) (emit EInitializeBase (st2\<lparr>l_CurrentlyStartingUnixWorkerState := Pending\<rparr>)))"
      by (rule runs_then_emit) simp
    with 4 Ret \<open>umbrella_signals (sigs_reset_pid env) st = Ret u st1\<close> show ?thesis
      by (simp add: reset_flags_def Let_def)
  qed (use 3 Ret in \<open>simp_all add: reset_flags_def\<close>)
qed (use umbrella_signals_runs [of st "sigs_reset_pid env"] in \<open>simp_all add: reset_flags_def\<close>)

lemma reset_flags_Ret:
  assumes "reset_flags env pid st = Ret p st'"
  shows "p = pid \<and> l_CurrentlyStartingUnixWorkerState st' = Pending
         \<and> l_CurrentlyStartingUnixWorkerPid st' = -1"
proof -
  from assms obtain u st1 u' st2 where
    1: "umbrella_signals (sigs_reset_pid env) st = Ret u st1"
    and 2: "umbrella_signals (sigs_reset_state env) (st1\<lparr>l_CurrentlyStartingUnixWorkerPid := -1\<rparr>) = Ret u' st2"
    and 3: "p = pid" "st' = emit EInitializeBase (st2\<lparr>l_CurrentlyStartingUnixWorkerState := Pending\<rparr>)"
    by (auto simp: reset_flags_def Let_def split: res.splits if_splits)
  from umbrella_signals_pid [OF 2] 3 show ?thesis by (simp add: emit_def)
qed

lemma await_worker_Ret:
  "await_worker pid ps rs st = Ret p st' \<Longrightarrow> p = pid \<or> p = -1"
proof (induction ps arbitrary: st)
  case Nil
  then show ?case by simp
next
  case (Cons a ps)
  obtain now sigs where a: "a = (now, sigs)" by (cases a)
  from Cons.prems a Cons.IH show ?case
    by (auto split: res.splits UnixWorkerState.splits)
qed

lemma StartUnixWorker_runs: "runs internal_event st (res_state (StartUnixWorker env st))"
proof -
  let ?st1 = "emit EUninitializeBase (emit (ELog LogSpawning) st)"
  let ?st2 = "emit (EFork (fork_ret env)) (emit ESigBlock ?st1)"
  let ?st3 = "emit (ELog (LogSpawned (fork_ret env)))
                (emit ESigUnblock (?st2\<lparr>l_CurrentlyStartingUnixWorkerPid := fork_ret env\<rparr>))"
  have 1: "runs internal_event st ?st1"
    by (intro runs_then_emit runs_refl) simp_all
  have uf: "runs internal_event st (emit (ELog LogUninitFailed) ?st1)"
    by (intro runs_then_emit runs_refl) simp_all
  have 2: "runs internal_event st ?st2"
    by (intro runs_then_emit runs_refl) simp_all
  have ff: "runs internal_event st (emit (ELog LogForkFailed) ?st2)"
    by (intro runs_then_emit runs_refl) simp_all
  have 3: "runs internal_event st ?st3"
    by (intro runs_then_emit runs_trans [OF 2 runs_store_pid]) simp_all
  have 4: "runs internal_event st
             (res_state (await_worker (fork_ret env) (polls env) (reap env) ?st3))"
    by (rule runs_trans [OF 3 await_worker_runs])
  show ?thesis
  proof (cases "await_worker (fork_ret env) (polls env) (reap env) ?st3")
    case (Ret p st4)
    with 4 have "runs internal_event st st4" by simp
    from runs_trans [OF this reset_flags_runs [of st4 env p]] Ret uf ff 2 show ?thesis
      by (auto simp: StartUnixWorker_def Let_def)
  qed (use uf ff 2 4 in \<open>auto simp: StartUnixWorker_def Let_def\<close>)
qed

lemma StartUnixWorker_Ret:
  assumes "StartUnixWorker env st = Ret p st'"
  shows "(p = fork_ret env \<or> p = -1) \<and> l_CurrentlyStartingUnixWorkerState st' = Pending
         \<and> l_CurrentlyStartingUnixWorkerPid st' = -1"
proof -
  from assms obtain p' st3 st4 where
    1: "await_worker (fork_ret env) (polls env) (reap env) st3 = Ret p' st4"
    and 2: "reset_flags env p' st4 = Ret p st'"
    by (auto simp: StartUnixWorker_def Let_def split: res.splits if_splits)
  from await_worker_Ret [OF 1] reset_flags_Ret [OF 2] show ?thesis by auto
qed

subsection \<open>StartUnixWorker and the worker start state\<close>

lemmas eval_defs =
  StartUnixWorker_def reset_flags_def NotifyWatchdog_def emit_def UmbrellaSignalHandler_def
  umbrella_init_def Let_def sig_defs

lemma spawn_loads_run:
  "StartUnixWorker (spawn_loads 4712) umbrella_init
     = Ret 4712
        (umbrella_init\<lparr>l_LastNotifiedWatchdog := 100,
           trace := [ELog LogSpawning, EUninitializeBase, ESigBlock, EFork 4712, ESigUnblock,
                     ELog (LogSpawned 4712), ESdNotify ''WATCHDOG=1'', ESleep,
                     ELog LogWorkerLoaded, EInitializeBase]\<rparr>)"
  by (simp add: spawn_loads_def eval_defs)

lemma spawn_fails_run:
  "StartUnixWorker (spawn_fails 4712) umbrella_init
     = Ret (-1)
        (umbrella_init\<lparr>l_LastNotifiedWatchdog := 100,
           trace := [ELog LogSpawning, EUninitializeBase, ESigBlock, EFork 4712, ESigUnblock,
                     ELog (LogSpawned 4712), ESdNotify ''WATCHDOG=1'', ESleep,
                     ELog LogWorkerFailed,
                     EWaitpid 4712 False \<lparr>w_ret = -1, w_status = WExited 0, w_errno = EINTR\<rparr>,
                     EWaitpid 4712 False \<lparr>w_ret = 4712, w_status = WExited 1, w_errno = EINTR\<rparr>,
                     EInitializeBase]\<rparr>)"
  by (simp add: spawn_fails_def eval_defs)

subsection \<open>The exit status of the umbrella\<close>

lemmas iter_defs =
  iteration_def forward_termination_def reload_if_requested_def reload_def
  reopen_logs_if_requested_def exchange_RequestedReload_def exchange_RequestedReopenLogs_def
  check_worker_def exit_code_of_def

lemma exit_code_of_simps:
  "exit_code_of (WExited n) = n" "exit_code_of (WSignaled s) = 128 + s"
  by (simp_all add: exit_code_of_def)

lemma iteration_Ret_code:
  assumes "iteration env l st = Ret (ro, l') st'" and "0 < w_ret (it_wait env)"
  shows "ro = Some (exit_code_of (w_status (it_wait env)))"
  using assms
  by (auto simp: iteration_def check_worker_def Let_def split: res.splits prod.splits if_splits)

text \<open>
  Claim C3.  When an iteration of the supervision loop gets as far as its non-blocking
  \<open>waitpid\<close> and that call reports the active worker (a return value above 0), \<open>Run\<close>
  returns at once, with the worker's exit code \<open>N\<close> when the worker exited normally and
  with \<open>128 + S\<close> when it was killed by signal \<open>S\<close>: 3 gives 3, signal 9 gives 137.
\<close>

theorem umbrella_exit_status:
  assumes "iteration env l st = Ret (ro, l') st'" and "0 < w_ret (it_wait env)"
  shows "umbrella_loop (env # envs) l st
           = Ret (case w_status (it_wait env) of WExited n \<Rightarrow> n | WSignaled s \<Rightarrow> 128 + s) st'"
proof -
  from assms have "ro = Some (exit_code_of (w_status (it_wait env)))"
    by (rule iteration_Ret_code)
  with assms(1) show ?thesis
    by (cases "w_status (it_wait env)") (simp_all add: exit_code_of_simps)
qed

lemma iter_idle_reported:
  "iteration (iter_idle 100 (reported 4711 status)) (locals_init 4711) umbrella_init
     = Ret (Some (exit_code_of status), (locals_init 4711)\<lparr>notifiedTermination := True\<rparr>)
         (umbrella_init\<lparr>l_LastNotifiedWatchdog := 100,
            trace := [ESdNotify ''WATCHDOG=1'', EWaitpid 4711 True (reported 4711 status),
                      ELog (LogWorkerStopped 4711), ESdNotify ''STOPPING=1'']\<rparr>)"
  by (simp add: iter_idle_def reported_def locals_init_def iteration_def forward_termination_def
        reload_if_requested_def reopen_logs_if_requested_def exchange_RequestedReload_def
        exchange_RequestedReopenLogs_def check_worker_def
        NotifyWatchdog_def emit_def umbrella_init_def Let_def)

theorem umbrella_exit_status_witness:
  "0 < w_ret (it_wait (iter_idle 100 (reported 4711 (WSignaled 9))))
   \<and> umbrella_loop [iter_idle 100 (reported 4711 (WSignaled 9))] (locals_init 4711) umbrella_init
      = Ret 137
         (umbrella_init\<lparr>l_LastNotifiedWatchdog := 100,
            trace := [ESdNotify ''WATCHDOG=1'',
                      EWaitpid 4711 True (reported 4711 (WSignaled 9)),
                      ELog (LogWorkerStopped 4711), ESdNotify ''STOPPING=1'']\<rparr>)
   \<and> umbrella_loop [iter_idle 100 (reported 4711 (WExited 3))] (locals_init 4711) umbrella_init
      = Ret 3
         (umbrella_init\<lparr>l_LastNotifiedWatchdog := 100,
            trace := [ESdNotify ''WATCHDOG=1'',
                      EWaitpid 4711 True (reported 4711 (WExited 3)),
                      ELog (LogWorkerStopped 4711), ESdNotify ''STOPPING=1'']\<rparr>)"
proof -
  have pos: "0 < w_ret (it_wait (iter_idle 100 (reported 4711 status)))" for status
    by (simp add: iter_idle_def reported_def)
  have st: "w_status (it_wait (iter_idle 100 (reported 4711 status))) = status" for status
    by (simp add: iter_idle_def reported_def)
  from umbrella_exit_status [OF iter_idle_reported pos, of "WSignaled 9" "[]"]
    umbrella_exit_status [OF iter_idle_reported pos, of "WExited 3" "[]"] pos [of "WSignaled 9"]
  show ?thesis by (simp add: st)
qed

subsection \<open>The keepalive throttle\<close>

lemma NotifyWatchdog_emitted:
  "length (trace st) < length (trace (NotifyWatchdog now st))
     \<longleftrightarrow> 2.5 \<le> now - l_LastNotifiedWatchdog st"
  by (simp add: NotifyWatchdog_def emit_def)

lemma watchdog_calls_bounds:
  "watchdog_calls nows st = (ts, st') \<Longrightarrow>
     (\<forall>t \<in> set ts. 2.5 \<le> t - l_LastNotifiedWatchdog st)
     \<and> sorted_wrt (\<lambda>a b. 2.5 \<le> b - a) ts"
proof (induction nows arbitrary: st ts st')
  case Nil
  then show ?case by simp
next
  case (Cons now nows)
  obtain ts1 st1 where rec: "watchdog_calls nows (NotifyWatchdog now st) = (ts1, st1)"
    by (cases "watchdog_calls nows (NotifyWatchdog now st)")
  from Cons.IH [OF rec]
  have ih1: "\<forall>t \<in> set ts1. 2.5 \<le> t - l_LastNotifiedWatchdog (NotifyWatchdog now st)"
    and ih2: "sorted_wrt (\<lambda>a b. 2.5 \<le> b - a) ts1" by simp_all
  show ?case
  proof (cases "2.5 \<le> now - l_LastNotifiedWatchdog st")
    case True
    then have last: "l_LastNotifiedWatchdog (NotifyWatchdog now st) = now"
      by (simp add: NotifyWatchdog_def emit_def)
    from True Cons.prems rec have ts: "ts = now # ts1"
      by (simp add: NotifyWatchdog_emitted Let_def)
    from ih1 last True have "\<forall>t \<in> set ts1. 2.5 \<le> t - l_LastNotifiedWatchdog st"
      by fastforce
    with ih1 ih2 last True ts show ?thesis by simp
  next
    case False
    then have same: "NotifyWatchdog now st = st"
      by (simp add: NotifyWatchdog_def)
    from False Cons.prems rec have "ts = ts1"
      by (simp add: NotifyWatchdog_emitted Let_def)
    with ih1 ih2 same show ?thesis by simp
  qed
qed

text \<open>
  Claim C9.  Whatever the clock readings at which \<open>NotifyWatchdog\<close> is called, the
  readings at which it emits a keepalive are at least 2.5 seconds apart from one another,
  and each is at least 2.5 seconds after the value \<open>l_LastNotifiedWatchdog\<close> had before
  the calls.  The clock is modelled with real numbers.
\<close>

theorem watchdog_throttled:
  "sorted_wrt (\<lambda>a b. 2.5 \<le> b - a) (fst (watchdog_calls nows st))
   \<and> (\<forall>t \<in> set (fst (watchdog_calls nows st)). 2.5 \<le> t - l_LastNotifiedWatchdog st)"
  using watchdog_calls_bounds [of nows st] by (cases "watchdog_calls nows st") simp

theorem watchdog_throttled_witness:
  "fst (watchdog_calls [100, 100.2, 100.4, 102.4, 102.6, 105] umbrella_init) = [100, 102.6]
   \<and> sorted_wrt (\<lambda>a b. 2.5 \<le> b - a)
        (fst (watchdog_calls [100, 100.2, 100.4, 102.4, 102.6, 105] umbrella_init))"
proof -
  have "fst (watchdog_calls [100, 100.2, 100.4, 102.4, 102.6, 105] umbrella_init) = [100, 102.6]"
    by (simp add: NotifyWatchdog_def emit_def umbrella_init_def)
  with watchdog_throttled [of "[100, 100.2, 100.4, 102.4, 102.6, 105]" umbrella_init]
  show ?thesis by blast
qed

subsection \<open>Reloads\<close>

lemma internal_event_not_kill: "internal_event e \<Longrightarrow> \<not> is_kill e"
  by (cases e) simp_all

lemma runs_trace: "runs P st st' \<Longrightarrow> \<exists>evs. trace st' = trace st @ evs \<and> list_all P evs"
  by (simp add: runs_def)

lemma spawn_loads_run_from:
  "StartUnixWorker (spawn_loads 4712) (umbrella_init\<lparr>trace := tr\<rparr>)
     = Ret 4712
        (umbrella_init\<lparr>l_LastNotifiedWatchdog := 100,
           trace := tr @ [ELog LogSpawning, EUninitializeBase, ESigBlock, EFork 4712,
                     ESigUnblock, ELog (LogSpawned 4712), ESdNotify ''WATCHDOG=1'', ESleep,
                     ELog LogWorkerLoaded, EInitializeBase]\<rparr>)"
  by (simp add: spawn_loads_def eval_defs)

lemma spawn_fails_run_from:
  "StartUnixWorker (spawn_fails 4712) (umbrella_init\<lparr>trace := tr\<rparr>)
     = Ret (-1)
        (umbrella_init\<lparr>l_LastNotifiedWatchdog := 100,
           trace := tr @ [ELog LogSpawning, EUninitializeBase, ESigBlock, EFork 4712,
                     ESigUnblock, ELog (LogSpawned 4712), ESdNotify ''WATCHDOG=1'', ESleep,
                     ELog LogWorkerFailed,
                     EWaitpid 4712 False \<lparr>w_ret = -1, w_status = WExited 0, w_errno = EINTR\<rparr>,
                     EWaitpid 4712 False \<lparr>w_ret = 4712, w_status = WExited 1, w_errno = EINTR\<rparr>,
                     EInitializeBase]\<rparr>)"
  by (simp add: spawn_fails_def eval_defs)

text \<open>
  Claim C2.  When the \<open>StartUnixWorker\<close> of a reload returns \<open>-1\<close>, the reload returns
  with the locals as they were, so \<open>currentWorker\<close> keeps its value, and none of the
  events of the whole reload attempt, the failed spawn included, is a \<open>kill\<close>: no signal
  is sent to the active worker, or to any process.
\<close>

theorem failed_reload_leaves_worker:
  assumes "StartUnixWorker (it_spawn env)
             (emit (ESdNotify ''RELOADING=1'') (emit (ELog LogReloadStart) st)) = Ret (-1) st1"
  shows "\<exists>st' evs. reload env l st = Ret l st'
           \<and> trace st' = trace st @ evs \<and> list_all (\<lambda>e. \<not> is_kill e) evs"
proof -
  let ?st0 = "emit (ESdNotify ''RELOADING=1'') (emit (ELog LogReloadStart) st)"
  let ?st' = "emit (ESdNotify ''READY=1'') (emit (ELog LogReloadAborted) st1)"
  from StartUnixWorker_runs [of ?st0 "it_spawn env"] assms
  obtain evs where evs: "trace st1 = trace ?st0 @ evs" "list_all internal_event evs"
    by (auto dest: runs_trace)
  from evs(2) have nk: "list_all (\<lambda>e. \<not> is_kill e) evs"
    by (simp add: list_all_iff internal_event_not_kill)
  have r: "reload env l st = Ret l ?st'"
    using assms by (simp add: reload_def)
  have t: "trace ?st' = trace st @ ([ELog LogReloadStart, ESdNotify ''RELOADING=1''] @ evs
                          @ [ELog LogReloadAborted, ESdNotify ''READY=1''])"
    using evs(1) by (simp add: emit_def)
  have "list_all (\<lambda>e. \<not> is_kill e) ([ELog LogReloadStart, ESdNotify ''RELOADING=1''] @ evs
                          @ [ELog LogReloadAborted, ESdNotify ''READY=1''])"
    using nk by simp
  with r t show ?thesis by blast
qed

theorem failed_reload_leaves_worker_witness:
  "reload (iter_reload 100 (spawn_fails 4712) [] still_running) (locals_init 4711) umbrella_init
     = Ret (locals_init 4711)
        (umbrella_init\<lparr>l_LastNotifiedWatchdog := 100,
           trace := [ELog LogReloadStart, ESdNotify ''RELOADING=1'',
                     ELog LogSpawning, EUninitializeBase, ESigBlock, EFork 4712,
                     ESigUnblock, ELog (LogSpawned 4712), ESdNotify ''WATCHDOG=1'', ESleep,
                     ELog LogWorkerFailed,
                     EWaitpid 4712 False \<lparr>w_ret = -1, w_status = WExited 0, w_errno = EINTR\<rparr>,
                     EWaitpid 4712 False \<lparr>w_ret = 4712, w_status = WExited 1, w_errno = EINTR\<rparr>,
                     EInitializeBase, ELog LogReloadAborted, ESdNotify ''READY=1'']\<rparr>)"
proof -
  let ?env = "iter_reload 100 (spawn_fails 4712) [] still_running"
  let ?st0 = "emit (ESdNotify ''RELOADING=1'') (emit (ELog LogReloadStart) umbrella_init)"
  have st0: "?st0 = umbrella_init\<lparr>trace := [ELog LogReloadStart, ESdNotify ''RELOADING=1'']\<rparr>"
    by (simp add: emit_def umbrella_init_def)
  have sp: "it_spawn ?env = spawn_fails 4712"
    by (simp add: iter_reload_def)
  have h: "StartUnixWorker (it_spawn ?env) ?st0
             = Ret (-1) (umbrella_init\<lparr>l_LastNotifiedWatchdog := 100,
           trace := [ELog LogReloadStart, ESdNotify ''RELOADING=1''] @ [ELog LogSpawning, EUninitializeBase, ESigBlock, EFork 4712,
                     ESigUnblock, ELog (LogSpawned 4712), ESdNotify ''WATCHDOG=1'', ESleep,
                     ELog LogWorkerFailed,
                     EWaitpid 4712 False \<lparr>w_ret = -1, w_status = WExited 0, w_errno = EINTR\<rparr>,
                     EWaitpid 4712 False \<lparr>w_ret = 4712, w_status = WExited 1, w_errno = EINTR\<rparr>,
                     EInitializeBase]\<rparr>)"
    unfolding st0 sp by (rule spawn_fails_run_from)
  from failed_reload_leaves_worker [OF h, of "locals_init 4711"]
  obtain st' where "reload ?env (locals_init 4711) umbrella_init = Ret (locals_init 4711) st'"
    by blast
  moreover from this h have "st' = emit (ESdNotify ''READY=1'') (emit (ELog LogReloadAborted)
        (umbrella_init\<lparr>l_LastNotifiedWatchdog := 100,
           trace := [ELog LogReloadStart, ESdNotify ''RELOADING=1''] @ [ELog LogSpawning, EUninitializeBase, ESigBlock, EFork 4712,
                     ESigUnblock, ELog (LogSpawned 4712), ESdNotify ''WATCHDOG=1'', ESleep,
                     ELog LogWorkerFailed,
                     EWaitpid 4712 False \<lparr>w_ret = -1, w_status = WExited 0, w_errno = EINTR\<rparr>,
                     EWaitpid 4712 False \<lparr>w_ret = 4712, w_status = WExited 1, w_errno = EINTR\<rparr>,
                     EInitializeBase]\<rparr>))"
    by (simp add: reload_def)
  ultimately show ?thesis by (simp add: emit_def)
qed

lemma waitpid_retry_Ret:
  "waitpid_retry pid ws st = Ret u st' \<Longrightarrow>
     \<exists>mid sigs r now. trace st' = trace st @ mid @ [EWaitpid pid False r]
        \<and> list_all internal_event mid \<and> (sigs, r, now) \<in> set ws
        \<and> \<not> (w_ret r = -1 \<and> w_errno r = EINTR)"
proof (induction ws arbitrary: st)
  case Nil
  then show ?case by simp
next
  case (Cons a ws)
  obtain sigs r now where a: "a = (sigs, r, now)" by (cases a)
  from Cons.prems a obtain st1 where s: "umbrella_signals sigs st = Ret () st1"
    by (auto split: res.splits)
  from umbrella_signals_Ret_runs [OF s] obtain e1 where
    e1: "trace st1 = trace st @ e1" "list_all internal_event e1"
    by (auto dest: runs_trace)
  let ?st2 = "emit (EWaitpid pid False r) st1"
  show ?case
  proof (cases "w_ret r = -1 \<and> w_errno r = EINTR")
    case False
    with Cons.prems a s have "st' = ?st2" by (auto simp: Let_def)
    with e1 have "trace st' = trace st @ e1 @ [EWaitpid pid False r]"
      by (simp add: emit_def)
    with e1(2) False a show ?thesis by fastforce
  next
    case True
    with Cons.prems a s have rec: "waitpid_retry pid ws (NotifyWatchdog now ?st2) = Ret u st'"
      by (auto simp: Let_def)
    from Cons.IH [OF rec] obtain mid sigs' r' now' where
      m: "trace st' = trace (NotifyWatchdog now ?st2) @ mid @ [EWaitpid pid False r']"
         "list_all internal_event mid" "(sigs', r', now') \<in> set ws"
         "\<not> (w_ret r' = -1 \<and> w_errno r' = EINTR)"
      by blast
    from NotifyWatchdog_runs [of ?st2 now] obtain e2 where
      e2: "trace (NotifyWatchdog now ?st2) = trace ?st2 @ e2" "list_all internal_event e2"
      by (auto dest: runs_trace)
    from m(1) e2(1) e1(1) have
      "trace st' = trace st @ (e1 @ [EWaitpid pid False r] @ e2 @ mid) @ [EWaitpid pid False r']"
      by (simp add: emit_def)
    moreover from e1(2) e2(2) m(2) have
      "list_all internal_event (e1 @ [EWaitpid pid False r] @ e2 @ mid)" by simp
    ultimately show ?thesis using m(3,4) a by fastforce
  qed
qed

text \<open>
  Claim C1.  In a reload whose \<open>StartUnixWorker\<close> returned a new worker, and where
  \<open>waitpid\<close> on the old worker answers as it does for a child that has not been reaped
  (it fails with \<open>EINTR\<close> or returns the child's pid), the events after the spawn are, in
  this order: \<open>kill(currentWorker, SIGTERM)\<close>; then only waits on the old worker, handler
  runs and keepalives, the loop going on as long as \<open>waitpid\<close> is interrupted; then the
  \<open>waitpid\<close> that returns the old worker's pid; and only then
  \<open>kill(nextWorker, SIGUSR2)\<close>, after which \<open>currentWorker\<close> is the new worker.  No
  \<open>kill\<close> at all happens during the spawn or during the wait, and as long as the wait has
  not returned (or the process has ended meanwhile) the new worker has been sent nothing.
\<close>

theorem reload_order:
  assumes spawn: "StartUnixWorker (it_spawn env)
             (emit (ESdNotify ''RELOADING=1'') (emit (ELog LogReloadStart) st)) = Ret nextWorker st1"
    and ok: "nextWorker \<noteq> -1"
    and posix: "\<forall>(sigs, r, now) \<in> set (it_wait_old env).
                  w_ret r = -1 \<and> w_errno r = EINTR \<or> w_ret r = currentWorker l"
  shows "\<exists>pre mid. list_all internal_event pre \<and> list_all internal_event mid
           \<and> trace st1 = trace st @ [ELog LogReloadStart, ESdNotify ''RELOADING=1''] @ pre
           \<and> (case reload env l st of
                 Ret l' st' \<Rightarrow>
                   l' = l\<lparr>currentWorker := nextWorker\<rparr>
                   \<and> (\<exists>r. w_ret r = currentWorker l
                          \<and> trace st' = trace st1
                               @ [ELog (LogReloadDone nextWorker), EKill (currentWorker l) SIGTERM]
                               @ mid
                               @ [EWaitpid (currentWorker l) False r, ELog LogWaitedForOld,
                                  EKill nextWorker SIGUSR2, ESdNotify ''READY=1''])
               | Exit c st' \<Rightarrow>
                   trace st' = trace st1
                     @ [ELog (LogReloadDone nextWorker), EKill (currentWorker l) SIGTERM] @ mid
               | Abort e st' \<Rightarrow>
                   trace st' = trace st1
                     @ [ELog (LogReloadDone nextWorker), EKill (currentWorker l) SIGTERM] @ mid
               | Waiting st' \<Rightarrow>
                   trace st' = trace st1
                     @ [ELog (LogReloadDone nextWorker), EKill (currentWorker l) SIGTERM] @ mid)"
proof -
  let ?st0 = "emit (ESdNotify ''RELOADING=1'') (emit (ELog LogReloadStart) st)"
  let ?st2 = "emit (EKill (currentWorker l) SIGTERM) (emit (ELog (LogReloadDone nextWorker)) st1)"
  let ?w = "waitpid_retry (currentWorker l) (it_wait_old env) ?st2"
  from StartUnixWorker_runs [of ?st0 "it_spawn env"] spawn
  obtain pre where pre: "trace st1 = trace ?st0 @ pre" "list_all internal_event pre"
    by (auto dest: runs_trace)
  then have t1: "trace st1 = trace st @ [ELog LogReloadStart, ESdNotify ''RELOADING=1''] @ pre"
    by (simp add: emit_def)
  have t2: "trace ?st2 = trace st1 @ [ELog (LogReloadDone nextWorker), EKill (currentWorker l) SIGTERM]"
    by (simp add: emit_def)
  have rl: "reload env l st =
              (case ?w of
                 Ret u st2 \<Rightarrow> Ret (l\<lparr>currentWorker := nextWorker\<rparr>)
                    (emit (ESdNotify ''READY=1'')
                       (emit (EKill nextWorker SIGUSR2) (emit (ELog LogWaitedForOld) st2)))
               | Exit c st2 \<Rightarrow> Exit c st2
               | Abort e st2 \<Rightarrow> Abort e st2
               | Waiting st2 \<Rightarrow> Waiting st2)"
    using spawn ok by (simp add: reload_def)
  show ?thesis
  proof (cases ?w)
    case (Ret u st2)
    from waitpid_retry_Ret [OF Ret] obtain mid sigs r now where
      m: "trace st2 = trace ?st2 @ mid @ [EWaitpid (currentWorker l) False r]"
         "list_all internal_event mid" "(sigs, r, now) \<in> set (it_wait_old env)"
         "\<not> (w_ret r = -1 \<and> w_errno r = EINTR)"
      by blast
    from posix m(3,4) have r: "w_ret r = currentWorker l" by fastforce
    from m(1) t2 have "trace (emit (ESdNotify ''READY=1'')
                       (emit (EKill nextWorker SIGUSR2) (emit (ELog LogWaitedForOld) st2)))
         = trace st1 @ [ELog (LogReloadDone nextWorker), EKill (currentWorker l) SIGTERM]
             @ mid @ [EWaitpid (currentWorker l) False r, ELog LogWaitedForOld,
                      EKill nextWorker SIGUSR2, ESdNotify ''READY=1'']"
      by (simp add: emit_def)
    with rl Ret r pre(2) m(2) t1 show ?thesis
      by (intro exI [of _ pre] exI [of _ mid]) auto
  next
    case (Exit c st2)
    from waitpid_retry_runs [of ?st2 "currentWorker l" "it_wait_old env"] Exit
    obtain mid where "trace st2 = trace ?st2 @ mid" "list_all internal_event mid"
      by (auto dest: runs_trace)
    with rl Exit pre(2) t1 t2 show ?thesis
      by (intro exI [of _ pre] exI [of _ mid]) auto
  next
    case (Abort e st2)
    from waitpid_retry_runs [of ?st2 "currentWorker l" "it_wait_old env"] Abort
    obtain mid where "trace st2 = trace ?st2 @ mid" "list_all internal_event mid"
      by (auto dest: runs_trace)
    with rl Abort pre(2) t1 t2 show ?thesis
      by (intro exI [of _ pre] exI [of _ mid]) auto
  next
    case (Waiting st2)
    from waitpid_retry_runs [of ?st2 "currentWorker l" "it_wait_old env"] Waiting
    obtain mid where "trace st2 = trace ?st2 @ mid" "list_all internal_event mid"
      by (auto dest: runs_trace)
    with rl Waiting pre(2) t1 t2 show ?thesis
      by (intro exI [of _ pre] exI [of _ mid]) auto
  qed
qed

lemma reload_example:
  "reload (iter_reload 100 (spawn_loads 4712)
             [([], interrupted, 100.5), ([], reported 4711 (WExited 0), 100.6)] still_running)
      (locals_init 4711) umbrella_init
     = Ret ((locals_init 4711)\<lparr>currentWorker := 4712\<rparr>)
         (umbrella_init\<lparr>l_LastNotifiedWatchdog := 100,
            trace := [ELog LogReloadStart, ESdNotify ''RELOADING=1'', ELog LogSpawning,
                      EUninitializeBase, ESigBlock, EFork 4712, ESigUnblock,
                      ELog (LogSpawned 4712), ESdNotify ''WATCHDOG=1'', ESleep,
                      ELog LogWorkerLoaded, EInitializeBase, ELog (LogReloadDone 4712),
                      EKill 4711 SIGTERM, EWaitpid 4711 False interrupted,
                      EWaitpid 4711 False (reported 4711 (WExited 0)),
                      ELog LogWaitedForOld, EKill 4712 SIGUSR2, ESdNotify ''READY=1'']\<rparr>)"
  by (simp add: reload_def iter_reload_def spawn_loads_def interrupted_def reported_def
        locals_init_def eval_defs)

theorem reload_order_witness:
  "reload (iter_reload 100 (spawn_loads 4712)
             [([], interrupted, 100.5), ([], reported 4711 (WExited 0), 100.6)] still_running)
      (locals_init 4711) umbrella_init
     = Ret ((locals_init 4711)\<lparr>currentWorker := 4712\<rparr>)
         (umbrella_init\<lparr>l_LastNotifiedWatchdog := 100,
            trace := [ELog LogReloadStart, ESdNotify ''RELOADING=1'', ELog LogSpawning,
                      EUninitializeBase, ESigBlock, EFork 4712, ESigUnblock,
                      ELog (LogSpawned 4712), ESdNotify ''WATCHDOG=1'', ESleep,
                      ELog LogWorkerLoaded, EInitializeBase, ELog (LogReloadDone 4712),
                      EKill 4711 SIGTERM, EWaitpid 4711 False interrupted,
                      EWaitpid 4711 False (reported 4711 (WExited 0)),
                      ELog LogWaitedForOld, EKill 4712 SIGUSR2, ESdNotify ''READY=1'']\<rparr>)
   \<and> (\<exists>pre mid r. list_all internal_event pre \<and> list_all internal_event mid
         \<and> w_ret r = 4711
         \<and> [ELog LogReloadStart, ESdNotify ''RELOADING=1'', ELog LogSpawning,
             EUninitializeBase, ESigBlock, EFork 4712, ESigUnblock,
             ELog (LogSpawned 4712), ESdNotify ''WATCHDOG=1'', ESleep,
             ELog LogWorkerLoaded, EInitializeBase, ELog (LogReloadDone 4712),
             EKill 4711 SIGTERM, EWaitpid 4711 False interrupted,
             EWaitpid 4711 False (reported 4711 (WExited 0)),
             ELog LogWaitedForOld, EKill 4712 SIGUSR2, ESdNotify ''READY=1'']
           = [ELog LogReloadStart, ESdNotify ''RELOADING=1''] @ pre
             @ [ELog (LogReloadDone 4712), EKill 4711 SIGTERM] @ mid
             @ [EWaitpid 4711 False r, ELog LogWaitedForOld, EKill 4712 SIGUSR2,
                ESdNotify ''READY=1''])"
proof -
  let ?ws = "[([], interrupted, 100.5), ([], reported 4711 (WExited 0), 100.6)]"
  let ?env = "iter_reload 100 (spawn_loads 4712) ?ws still_running"
  let ?st0 = "emit (ESdNotify ''RELOADING=1'') (emit (ELog LogReloadStart) umbrella_init)"
  let ?tr1 = "[ELog LogReloadStart, ESdNotify ''RELOADING=1''] @
              [ELog LogSpawning, EUninitializeBase, ESigBlock, EFork 4712,
               ESigUnblock, ELog (LogSpawned 4712), ESdNotify ''WATCHDOG=1'', ESleep,
               ELog LogWorkerLoaded, EInitializeBase]"
  let ?st1 = "umbrella_init\<lparr>l_LastNotifiedWatchdog := 100, trace := ?tr1\<rparr>"
  have st0: "?st0 = umbrella_init\<lparr>trace := [ELog LogReloadStart, ESdNotify ''RELOADING=1'']\<rparr>"
    by (simp add: emit_def umbrella_init_def)
  have sp: "it_spawn ?env = spawn_loads 4712" and ws: "it_wait_old ?env = ?ws"
    by (simp_all add: iter_reload_def)
  have h: "StartUnixWorker (it_spawn ?env) ?st0 = Ret 4712 ?st1"
    unfolding st0 sp by (rule spawn_loads_run_from)
  have ok: "(4712::int) \<noteq> -1" by simp
  have posix: "\<forall>(sigs, r, now) \<in> set (it_wait_old ?env).
                 w_ret r = -1 \<and> w_errno r = EINTR \<or> w_ret r = currentWorker (locals_init 4711)"
    unfolding ws by (simp add: interrupted_def reported_def locals_init_def)
  have cw: "currentWorker (locals_init 4711) = 4711"
    by (simp add: locals_init_def)
  have tr: "trace umbrella_init = []" "trace ?st1 = ?tr1"
    by (simp_all add: umbrella_init_def)
  from reload_order [OF h ok posix] obtain pre mid where
    pm: "list_all internal_event pre" "list_all internal_event mid"
    and c: "case reload ?env (locals_init 4711) umbrella_init of
                 Ret l' st' \<Rightarrow>
                   l' = (locals_init 4711)\<lparr>currentWorker := 4712\<rparr>
                   \<and> (\<exists>r. w_ret r = currentWorker (locals_init 4711)
                          \<and> trace st' = trace ?st1
                               @ [ELog (LogReloadDone 4712), EKill (currentWorker (locals_init 4711)) SIGTERM]
                               @ mid
                               @ [EWaitpid (currentWorker (locals_init 4711)) False r, ELog LogWaitedForOld,
                                  EKill 4712 SIGUSR2, ESdNotify ''READY=1''])
               | Exit c st' \<Rightarrow> True | Abort e st' \<Rightarrow> True | Waiting st' \<Rightarrow> True"
    by (fastforce split: res.splits)
  from c obtain r where r: "w_ret r = 4711"
    "[ELog LogReloadStart, ESdNotify ''RELOADING=1'', ELog LogSpawning,
             EUninitializeBase, ESigBlock, EFork 4712, ESigUnblock,
             ELog (LogSpawned 4712), ESdNotify ''WATCHDOG=1'', ESleep,
             ELog LogWorkerLoaded, EInitializeBase, ELog (LogReloadDone 4712),
             EKill 4711 SIGTERM, EWaitpid 4711 False interrupted,
             EWaitpid 4711 False (reported 4711 (WExited 0)),
             ELog LogWaitedForOld, EKill 4712 SIGUSR2, ESdNotify ''READY=1'']
           = ?tr1 @ [ELog (LogReloadDone 4712), EKill 4711 SIGTERM] @ mid
             @ [EWaitpid 4711 False r, ELog LogWaitedForOld, EKill 4712 SIGUSR2,
                ESdNotify ''READY=1'']"
    unfolding reload_example cw by auto
  have "list_all internal_event [ELog LogSpawning, EUninitializeBase, ESigBlock, EFork 4712,
               ESigUnblock, ELog (LogSpawned 4712), ESdNotify ''WATCHDOG=1'', ESleep,
               ELog LogWorkerLoaded, EInitializeBase]" by simp
  with r pm(2) have "\<exists>pre mid r. list_all internal_event pre \<and> list_all internal_event mid
         \<and> w_ret r = 4711
         \<and> [ELog LogReloadStart, ESdNotify ''RELOADING=1'', ELog LogSpawning,
             EUninitializeBase, ESigBlock, EFork 4712, ESigUnblock,
             ELog (LogSpawned 4712), ESdNotify ''WATCHDOG=1'', ESleep,
             ELog LogWorkerLoaded, EInitializeBase, ELog (LogReloadDone 4712),
             EKill 4711 SIGTERM, EWaitpid 4711 False interrupted,
             EWaitpid 4711 False (reported 4711 (WExited 0)),
             ELog LogWaitedForOld, EKill 4712 SIGUSR2, ESdNotify ''READY=1'']
           = [ELog LogReloadStart, ESdNotify ''RELOADING=1''] @ pre
             @ [ELog (LogReloadDone 4712), EKill 4711 SIGTERM] @ mid
             @ [EWaitpid 4711 False r, ELog LogWaitedForOld, EKill 4712 SIGUSR2,
                ESdNotify ''READY=1'']"
    by (intro exI [of _ "[ELog LogSpawning, EUninitializeBase, ESigBlock, EFork 4712,
               ESigUnblock, ELog (LogSpawned 4712), ESdNotify ''WATCHDOG=1'', ESleep,
               ELog LogWorkerLoaded, EInitializeBase]"] exI [of _ mid] exI [of _ r]) simp
  with reload_example show ?thesis by blast
qed

subsection \<open>Forwarding of termination signals: counting over the loop\<close>

lemma spends_refl [simp]: "spends a a"
  by (simp add: spends_def)

lemma spends_trans:
  assumes "spends a b" and "spends b c"
  shows "spends a c"
proof -
  from assms(1) obtain e1 where 1: "trace (fst b) = trace (fst a) @ e1"
    "length (filter is_forward e1) + forwards_left (snd b) \<le> forwards_left (snd a)"
    "length (filter is_term_kill e1) + forwards_left (snd b)
       \<le> forwards_left (snd a) + length (filter is_reloading e1)"
    "length (filter is_stopping e1) + stoppings_left (snd b) \<le> stoppings_left (snd a)"
    unfolding spends_def by blast
  from assms(2) obtain e2 where 2: "trace (fst c) = trace (fst b) @ e2"
    "length (filter is_forward e2) + forwards_left (snd c) \<le> forwards_left (snd b)"
    "length (filter is_term_kill e2) + forwards_left (snd c)
       \<le> forwards_left (snd b) + length (filter is_reloading e2)"
    "length (filter is_stopping e2) + stoppings_left (snd c) \<le> stoppings_left (snd b)"
    unfolding spends_def by blast
  from 1(1) 2(1) have "trace (fst c) = trace (fst a) @ (e1 @ e2)" by simp
  moreover from 1(2) 2(2) have
    "length (filter is_forward (e1 @ e2)) + forwards_left (snd c) \<le> forwards_left (snd a)"
    by simp
  moreover from 1(3) 2(3) have
    "length (filter is_term_kill (e1 @ e2)) + forwards_left (snd c)
       \<le> forwards_left (snd a) + length (filter is_reloading (e1 @ e2))"
    by simp
  moreover from 1(4) 2(4) have
    "length (filter is_stopping (e1 @ e2)) + stoppings_left (snd c) \<le> stoppings_left (snd a)"
    by simp
  ultimately show ?thesis unfolding spends_def by blast
qed

lemma calm_filter:
  "list_all calm evs \<Longrightarrow>
     filter is_forward evs = [] \<and> filter is_stopping evs = [] \<and> filter is_term_kill evs = []"
  by (induction evs) (auto simp: calm_def)

lemma runs_calm_spends: "runs calm st st' \<Longrightarrow> spends (st, l) (st', l)"
  by (auto simp: runs_def spends_def dest: calm_filter)

lemma internal_event_calm: "internal_event e \<Longrightarrow> calm e"
  by (cases e rule: is_forward.cases) (auto simp: calm_def is_stopping_def)

lemma runs_internal_calm: "runs internal_event a b \<Longrightarrow> runs calm a b"
  by (erule runs_mono) (rule internal_event_calm)

lemma internal_filter:
  "list_all internal_event evs \<Longrightarrow>
     filter is_forward evs = [] \<and> filter is_stopping evs = [] \<and> filter is_term_kill evs = []
     \<and> filter is_reloading evs = [] \<and> filter is_reopen_kill evs = [] \<and> filter is_kill evs = []"
proof (induction evs)
  case Nil
  show ?case by simp
next
  case (Cons e evs)
  then have "internal_event e" by simp
  then have "\<not> is_forward e \<and> \<not> is_stopping e \<and> \<not> is_term_kill e \<and> \<not> is_reloading e
             \<and> \<not> is_reopen_kill e \<and> \<not> is_kill e"
    by (cases e rule: is_forward.cases) (auto simp: is_stopping_def is_reloading_def)
  with Cons show ?case by simp
qed

lemma calm_simps [simp]:
  "calm (EKill p SIGUSR1)" "calm (EKill p SIGUSR2)" "calm (ESdNotify ''READY=1'')"
  "calm (ESdNotify ''RELOADING=1'')"
  "calm (ELog LogReloadStart)" "calm (ELog LogReloadAborted)" "calm (ELog (LogReloadDone p))"
  "calm (ELog LogWaitedForOld)" "calm (ELog (LogForwardReopen s p))"
  "calm (ELog (LogWorkerStopped p))" "calm (EWaitpid p b r)" "calm ESleep"
  by (simp_all add: calm_def is_stopping_def)

text \<open>The events of a reload, whatever its outcome.\<close>

lemma reload_trace:
  "\<exists>pre post. list_all internal_event pre
     \<and> trace (res_state (reload env l st))
         = trace st @ [ELog LogReloadStart, ESdNotify ''RELOADING=1''] @ pre @ post
     \<and> (post = [] \<or> post = [ELog LogReloadAborted, ESdNotify ''READY=1'']
        \<or> (\<exists>nw mid tail. list_all internal_event mid
              \<and> post = [ELog (LogReloadDone nw), EKill (currentWorker l) SIGTERM] @ mid @ tail
              \<and> (tail = []
                  \<or> tail = [ELog LogWaitedForOld, EKill nw SIGUSR2, ESdNotify ''READY=1''])))"
proof -
  let ?st0 = "emit (ESdNotify ''RELOADING=1'') (emit (ELog LogReloadStart) st)"
  let ?sp = "StartUnixWorker (it_spawn env) ?st0"
  have t0: "trace ?st0 = trace st @ [ELog LogReloadStart, ESdNotify ''RELOADING=1'']"
    by (simp add: emit_def)
  from StartUnixWorker_runs [of ?st0 "it_spawn env"] obtain pre where
    pre: "trace (res_state ?sp) = trace ?st0 @ pre" "list_all internal_event pre"
    by (auto dest: runs_trace)
  show ?thesis
  proof (cases ?sp)
    case (Ret nw st1)
    with pre t0 have t1: "trace st1 = trace st @ [ELog LogReloadStart, ESdNotify ''RELOADING=1''] @ pre"
      by simp
    show ?thesis
    proof (cases "nw = -1")
      case True
      with Ret have "reload env l st
          = Ret l (emit (ESdNotify ''READY=1'') (emit (ELog LogReloadAborted) st1))"
        by (simp add: reload_def)
      with t1 have "trace (res_state (reload env l st))
          = trace st @ [ELog LogReloadStart, ESdNotify ''RELOADING=1''] @ pre
              @ [ELog LogReloadAborted, ESdNotify ''READY=1'']"
        by (simp add: emit_def)
      with pre(2) show ?thesis by blast
    next
      case False
      let ?st2 = "emit (EKill (currentWorker l) SIGTERM) (emit (ELog (LogReloadDone nw)) st1)"
      let ?w = "waitpid_retry (currentWorker l) (it_wait_old env) ?st2"
      from waitpid_retry_runs [of ?st2 "currentWorker l" "it_wait_old env"] obtain mid where
        mid: "trace (res_state ?w) = trace ?st2 @ mid" "list_all internal_event mid"
        by (auto dest: runs_trace)
      with t1 have tw: "trace (res_state ?w)
          = trace st @ [ELog LogReloadStart, ESdNotify ''RELOADING=1''] @ pre
              @ [ELog (LogReloadDone nw), EKill (currentWorker l) SIGTERM] @ mid"
        by (simp add: emit_def)
      have "\<exists>tail. trace (res_state (reload env l st))
          = trace st @ [ELog LogReloadStart, ESdNotify ''RELOADING=1''] @ pre
              @ [ELog (LogReloadDone nw), EKill (currentWorker l) SIGTERM] @ mid @ tail
          \<and> (tail = [] \<or> tail = [ELog LogWaitedForOld, EKill nw SIGUSR2, ESdNotify ''READY=1''])"
      proof (cases ?w)
        case w: (Ret u st3)
        with Ret False have "reload env l st
            = Ret (l\<lparr>currentWorker := nw\<rparr>)
                (emit (ESdNotify ''READY=1'')
                   (emit (EKill nw SIGUSR2) (emit (ELog LogWaitedForOld) st3)))"
          by (simp add: reload_def)
        with tw w show ?thesis by (simp add: emit_def)
      qed (use Ret False tw in \<open>simp_all add: reload_def\<close>)
      with pre(2) mid(2) show ?thesis by blast
    qed
  qed (use pre t0 in \<open>auto simp: reload_def\<close>)
qed

lemma reload_counts:
  "\<exists>evs. trace (res_state (reload env l st)) = trace st @ evs
     \<and> filter is_forward evs = [] \<and> filter is_stopping evs = []
     \<and> length (filter is_term_kill evs) \<le> 1
     \<and> length (filter is_reloading evs) = 1
     \<and> filter is_reopen_kill evs = []"
proof -
  from reload_trace [of env l st] obtain pre post where
    pre: "list_all internal_event pre"
    and t: "trace (res_state (reload env l st))
         = trace st @ [ELog LogReloadStart, ESdNotify ''RELOADING=1''] @ pre @ post"
    and post: "post = [] \<or> post = [ELog LogReloadAborted, ESdNotify ''READY=1'']
        \<or> (\<exists>nw mid tail. list_all internal_event mid
              \<and> post = [ELog (LogReloadDone nw), EKill (currentWorker l) SIGTERM] @ mid @ tail
              \<and> (tail = []
                  \<or> tail = [ELog LogWaitedForOld, EKill nw SIGUSR2, ESdNotify ''READY=1'']))"
    by blast
  have ne: "SIGTERM \<noteq> SIGUSR1" "SIGTERM \<noteq> SIGUSR2" "SIGUSR2 \<noteq> SIGUSR1"
    by (simp_all add: sig_defs)
  from post have "filter is_forward post = [] \<and> filter is_stopping post = []
     \<and> length (filter is_term_kill post) \<le> 1 \<and> filter is_reloading post = []
     \<and> filter is_reopen_kill post = []"
    using ne by (auto simp: is_stopping_def is_reloading_def dest!: internal_filter)
  with internal_filter [OF pre] t show ?thesis
    by (intro exI [of _ "[ELog LogReloadStart, ESdNotify ''RELOADING=1''] @ pre @ post"])
       (simp add: is_stopping_def is_reloading_def)
qed

lemma reload_spends: "spends (st, l) (res_state (reload env l st), l)"
  using reload_counts [of env l st] by (auto simp: spends_def)

lemma reload_Ret_latches:
  "reload env l st = Ret l' st' \<Longrightarrow>
     requestedTermination l' = requestedTermination l
     \<and> notifiedTermination l' = notifiedTermination l"
  by (auto simp: reload_def split: res.splits if_splits)

lemma runs_drain_reload: "runs P st (snd (exchange_RequestedReload st))"
  by (simp add: runs_def exchange_RequestedReload_def)

lemma runs_drain_reopen: "runs P st (snd (exchange_RequestedReopenLogs st))"
  by (simp add: runs_def exchange_RequestedReopenLogs_def)

lemma reload_if_requested_spends:
  "spends (st, l) (res_state (reload_if_requested env l st), l)"
proof -
  have "spends (st, l) (snd (exchange_RequestedReload st), l)"
    by (rule runs_calm_spends [OF runs_drain_reload])
  from this spends_trans [OF this reload_spends [of _ l env]] show ?thesis
    by (simp add: reload_if_requested_def exchange_RequestedReload_def)
qed

lemma reload_if_requested_latches:
  "reload_if_requested env l st = Ret l' st' \<Longrightarrow>
     requestedTermination l' = requestedTermination l
     \<and> notifiedTermination l' = notifiedTermination l"
  by (auto simp: reload_if_requested_def exchange_RequestedReload_def
        dest: reload_Ret_latches split: if_splits)

lemma reopen_logs_runs: "runs calm st (reopen_logs_if_requested l st)"
proof -
  have d: "runs calm st (snd (exchange_RequestedReopenLogs st))"
    by (rule runs_drain_reopen)
  then have "runs calm st (emit (EKill (currentWorker l) SIGUSR1)
                 (emit (ELog (LogForwardReopen SIGUSR1 (currentWorker l)))
                    (snd (exchange_RequestedReopenLogs st))))"
    by (intro runs_then_emit) simp_all
  with d show ?thesis
    by (simp add: reopen_logs_if_requested_def exchange_RequestedReopenLogs_def)
qed

lemma forward_termination_spends:
  "spends (st, l) (snd (forward_termination l st), fst (forward_termination l st))"
  by (simp add: forward_termination_def spends_def emit_def Let_def forwards_left_def
        stoppings_left_def is_stopping_def)

lemma check_worker_spends:
  "spends (st, l) (snd (check_worker r l st), snd (fst (check_worker r l st)))"
  by (simp add: check_worker_def spends_def emit_def Let_def forwards_left_def
        stoppings_left_def is_stopping_def)

lemma umbrella_signals_spends:
  "spends (st, l) (res_state (umbrella_signals sigs st), l)"
  by (rule runs_calm_spends [OF runs_internal_calm [OF umbrella_signals_runs]])

lemma spends_latches:
  "spends a (st, l1) \<Longrightarrow> requestedTermination l2 = requestedTermination l1 \<Longrightarrow>
   notifiedTermination l2 = notifiedTermination l1 \<Longrightarrow> spends a (st, l2)"
  by (simp add: spends_def forwards_left_def stoppings_left_def)

lemma iteration_spends:
  "\<exists>l'. spends (st, l) (res_state (iteration env l st), l')
        \<and> (\<forall>ro l'' st'. iteration env l st = Ret (ro, l'') st' \<longrightarrow> l'' = l')"
proof -
  let ?st0 = "NotifyWatchdog (it_now env) st"
  have a0: "spends (st, l) (?st0, l)"
    by (rule runs_calm_spends [OF runs_internal_calm [OF NotifyWatchdog_runs]])
  have a1: "spends (st, l) (res_state (umbrella_signals (it_sigs_term env) ?st0), l)"
    by (rule spends_trans [OF a0 umbrella_signals_spends])
  show ?thesis
  proof (cases "umbrella_signals (it_sigs_term env) ?st0")
    case r1: (Ret u1 st1)
    obtain l1 st2 where ft: "forward_termination l st1 = (l1, st2)"
      by (cases "forward_termination l st1")
    from forward_termination_spends [of st1 l] ft have "spends (st1, l) (st2, l1)" by simp
    with a1 r1 have a2: "spends (st, l) (st2, l1)"
      by (auto intro: spends_trans)
    have a3: "spends (st, l) (res_state (umbrella_signals (it_sigs_reload env) st2), l1)"
      by (rule spends_trans [OF a2 umbrella_signals_spends])
    show ?thesis
    proof (cases "umbrella_signals (it_sigs_reload env) st2")
      case r2: (Ret u2 st3)
      have "spends (st3, l1) (res_state (reload_if_requested env l1 st3), l1)"
        by (rule reload_if_requested_spends)
      with a3 r2 have a4: "spends (st, l) (res_state (reload_if_requested env l1 st3), l1)"
        by (auto intro: spends_trans)
      show ?thesis
      proof (cases "reload_if_requested env l1 st3")
        case r3: (Ret l2 st4)
        from reload_if_requested_latches [OF r3] a4 r3 have a4': "spends (st, l) (st4, l2)"
          by (auto intro: spends_latches)
        have a5: "spends (st, l) (res_state (umbrella_signals (it_sigs_reopen env) st4), l2)"
          by (rule spends_trans [OF a4' umbrella_signals_spends])
        show ?thesis
        proof (cases "umbrella_signals (it_sigs_reopen env) st4")
          case r4: (Ret u4 st5)
          let ?st5' = "reopen_logs_if_requested l2 st5"
          let ?c = "check_worker (it_wait env) l2 ?st5'"
          have "spends (st5, l2) (?st5', l2)"
            by (rule runs_calm_spends [OF reopen_logs_runs])
          with a5 r4 have "spends (st, l) (?st5', l2)"
            by (auto intro: spends_trans)
          from spends_trans [OF this check_worker_spends [of ?st5' l2 "it_wait env"]]
          have a7: "spends (st, l) (snd ?c, snd (fst ?c))" .
          have "iteration env l st = Ret (fst ?c) (snd ?c)"
            using r1 ft r2 r3 r4 by (simp add: iteration_def split: prod.splits)
          with a7 show ?thesis by (intro exI [of _ "snd (fst ?c)"]) auto
        qed (use a5 r1 ft r2 r3 in \<open>auto simp: iteration_def intro!: exI [of _ l2]\<close>)
      qed (use a4 r1 ft r2 in \<open>auto simp: iteration_def intro!: exI [of _ l1]\<close>)
    qed (use a3 r1 ft in \<open>auto simp: iteration_def intro!: exI [of _ l1]\<close>)
  qed (use a1 in \<open>auto simp: iteration_def intro!: exI [of _ l]\<close>)
qed

lemma umbrella_loop_spends:
  "\<exists>l'. spends (st, l) (res_state (umbrella_loop envs l st), l')"
proof (induction envs arbitrary: l st)
  case Nil
  show ?case by (auto intro!: exI [of _ l])
next
  case (Cons env envs)
  from iteration_spends [of st l env] obtain l1 where
    s: "spends (st, l) (res_state (iteration env l st), l1)"
    and eq: "\<And>ro l'' st'. iteration env l st = Ret (ro, l'') st' \<Longrightarrow> l'' = l1"
    by blast
  show ?case
  proof (cases "iteration env l st")
    case (Ret x st')
    obtain ro l'' where x: "x = (ro, l'')" by (cases x)
    from eq Ret x have l'': "l'' = l1" by simp
    from s Ret have s1: "spends (st, l) (st', l1)" by simp
    show ?thesis
    proof (cases ro)
      case None
      have "runs calm st' (emit ESleep st')" by (rule runs_emit) simp
      from spends_trans [OF s1 runs_calm_spends [OF this]]
      have "spends (st, l) (emit ESleep st', l1)" .
      moreover from Cons.IH [of "emit ESleep st'" l1] obtain l' where
        "spends (emit ESleep st', l1) (res_state (umbrella_loop envs l1 (emit ESleep st')), l')"
        by blast
      ultimately have "spends (st, l) (res_state (umbrella_loop envs l1 (emit ESleep st')), l')"
        by (rule spends_trans)
      with Ret x l'' None show ?thesis by auto
    next
      case (Some code)
      with Ret x s1 show ?thesis by auto
    qed
  qed (use s in auto)
qed

lemma spends_counts:
  "spends (st, l) (st', l') \<Longrightarrow>
     \<exists>evs. trace st' = trace st @ evs
       \<and> length (filter is_forward evs) \<le> (if requestedTermination l then 0 else 1)
       \<and> length (filter is_term_kill evs)
            \<le> (if requestedTermination l then 0 else 1) + length (filter is_reloading evs)
       \<and> length (filter is_stopping evs) \<le> (if notifiedTermination l then 0 else 1)"
  by (fastforce simp: spends_def forwards_left_def stoppings_left_def)

lemma Run_spends:
  "\<exists>l'. spends (st, \<lparr>currentWorker = 0, requestedTermination = False,
                       notifiedTermination = False\<rparr>) (res_state (Run env st), l')"
proof -
  let ?l = "\<lparr>currentWorker = 0, requestedTermination = False, notifiedTermination = False\<rparr>"
  have 1: "spends (st, ?l) (res_state (StartUnixWorker (first_spawn env) st), ?l)"
    by (rule runs_calm_spends [OF runs_internal_calm [OF StartUnixWorker_runs]])
  show ?thesis
  proof (cases "StartUnixWorker (first_spawn env) st")
    case (Ret cw st1)
    let ?li = "\<lparr>currentWorker = cw, requestedTermination = False, notifiedTermination = False\<rparr>"
    let ?st2 = "emit (ESdNotify ''READY=1'') (emit (EKill cw SIGUSR2) st1)"
    from 1 Ret have "spends (st, ?l) (st1, ?li)"
      by (simp add: spends_def forwards_left_def stoppings_left_def)
    moreover have "runs calm st1 ?st2"
      by (intro runs_then_emit runs_refl) simp_all
    ultimately have 2: "spends (st, ?l) (?st2, ?li)"
      by (blast intro: spends_trans runs_calm_spends)
    show ?thesis
    proof (cases "cw = -1")
      case True
      with 1 Ret show ?thesis by (auto simp: Run_def)
    next
      case False
      from umbrella_loop_spends [of ?st2 ?li "iterations env"] obtain l' where
        "spends (?st2, ?li) (res_state (umbrella_loop (iterations env) ?li ?st2), l')" by blast
      from spends_trans [OF 2 this] Ret False show ?thesis
        by (auto simp: Run_def)
    qed
  qed (use 1 in \<open>auto simp: Run_def\<close>)
qed

lemma forward_termination_latches:
  "forward_termination l st = (l1, st1) \<Longrightarrow>
     (requestedTermination l \<longrightarrow> requestedTermination l1)
     \<and> (notifiedTermination l \<longrightarrow> notifiedTermination l1)"
  by (auto simp: forward_termination_def Let_def split: if_splits)

lemma check_worker_latches:
  "check_worker r l st = ((ro, l1), st1) \<Longrightarrow>
     requestedTermination l1 = requestedTermination l
     \<and> (notifiedTermination l \<longrightarrow> notifiedTermination l1)"
  by (auto simp: check_worker_def Let_def split: if_splits)

lemma iteration_Ret_parts:
  assumes "iteration env l st = Ret (ro, l') st'"
  shows "\<exists>st1 l1 st2 st3 l2 st4 st5.
           umbrella_signals (it_sigs_term env) (NotifyWatchdog (it_now env) st) = Ret () st1
           \<and> forward_termination l st1 = (l1, st2)
           \<and> umbrella_signals (it_sigs_reload env) st2 = Ret () st3
           \<and> reload_if_requested env l1 st3 = Ret l2 st4
           \<and> umbrella_signals (it_sigs_reopen env) st4 = Ret () st5
           \<and> check_worker (it_wait env) l2 (reopen_logs_if_requested l2 st5) = ((ro, l'), st')"
  using assms unfolding iteration_def
  by (simp split: res.splits prod.splits)

lemma iteration_latches:
  assumes "iteration env l st = Ret (ro, l') st'"
  shows "(requestedTermination l \<longrightarrow> requestedTermination l')
       \<and> (notifiedTermination l \<longrightarrow> notifiedTermination l')"
proof -
  from iteration_Ret_parts [OF assms] obtain st1 l1 st2 st3 l2 st4 st5 where
    ft: "forward_termination l st1 = (l1, st2)"
    and rl: "reload_if_requested env l1 st3 = Ret l2 st4"
    and cw: "check_worker (it_wait env) l2 (reopen_logs_if_requested l2 st5) = ((ro, l'), st')"
    by blast
  from forward_termination_latches [OF ft] reload_if_requested_latches [OF rl]
    check_worker_latches [OF cw]
  show ?thesis by simp
qed

text \<open>
  Claim C6, as the code has it.  The loop reads \<open>l_TermSignal\<close> with a plain load and
  never resets it: the forwarding block leaves the flag as it found it.  What ends the
  forwarding is the local latch \<open>requestedTermination\<close>: once it is set, or as long as no
  termination signal is recorded, the block does nothing at all; otherwise it logs, sends
  the recorded signal number to the active worker once, sets the latch and notifies the
  supervisor "stopping" unless that has been done.  Both latches, once set, stay set over
  an iteration.  Hence over all iterations of the loop, and over the whole of \<open>Run\<close>: the
  forwarding is announced at most once; the number of \<open>kill\<close> calls with a signal other
  than \<open>SIGUSR1\<close> and \<open>SIGUSR2\<close> is at most one plus the number of reloads, each reload
  sending one \<open>SIGTERM\<close> to the old worker, so that a run without a reload sends at most
  one such \<open>kill\<close>; and "stopping" is notified at most once, the worker-exit path included.
\<close>

theorem termination_forwarded_once:
  "l_TermSignal (snd (forward_termination l st)) = l_TermSignal st
   \<and> (requestedTermination l \<or> l_TermSignal st = -1 \<longrightarrow> forward_termination l st = (l, st))
   \<and> (\<not> requestedTermination l \<and> l_TermSignal st \<noteq> -1 \<longrightarrow>
        forward_termination l st
          = (l\<lparr>requestedTermination := True, notifiedTermination := True\<rparr>,
             st\<lparr>trace := trace st
                    @ [ELog (LogForwardTerm (l_TermSignal st) (currentWorker l)),
                       EKill (currentWorker l) (l_TermSignal st)]
                    @ (if notifiedTermination l then [] else [ESdNotify ''STOPPING=1''])\<rparr>))
   \<and> (iteration env l st = Ret (ro, l') st' \<longrightarrow>
        (requestedTermination l \<longrightarrow> requestedTermination l')
        \<and> (notifiedTermination l \<longrightarrow> notifiedTermination l'))
   \<and> (\<exists>evs. trace (res_state (umbrella_loop envs l st)) = trace st @ evs
          \<and> length (filter is_forward evs) \<le> (if requestedTermination l then 0 else 1)
          \<and> length (filter is_term_kill evs)
               \<le> (if requestedTermination l then 0 else 1) + length (filter is_reloading evs)
          \<and> length (filter is_stopping evs) \<le> (if notifiedTermination l then 0 else 1))
   \<and> (\<exists>evs. trace (res_state (Run renv st)) = trace st @ evs
          \<and> length (filter is_forward evs) \<le> 1
          \<and> length (filter is_term_kill evs) \<le> 1 + length (filter is_reloading evs)
          \<and> length (filter is_stopping evs) \<le> 1)"
proof (intro conjI impI)
  show "l_TermSignal (snd (forward_termination l st)) = l_TermSignal st"
    by (simp add: forward_termination_def emit_def Let_def)
next
  assume "requestedTermination l \<or> l_TermSignal st = -1"
  then show "forward_termination l st = (l, st)"
    by (auto simp: forward_termination_def Let_def)
next
  assume "\<not> requestedTermination l \<and> l_TermSignal st \<noteq> -1"
  then show "forward_termination l st
          = (l\<lparr>requestedTermination := True, notifiedTermination := True\<rparr>,
             st\<lparr>trace := trace st
                    @ [ELog (LogForwardTerm (l_TermSignal st) (currentWorker l)),
                       EKill (currentWorker l) (l_TermSignal st)]
                    @ (if notifiedTermination l then [] else [ESdNotify ''STOPPING=1''])\<rparr>)"
    by (simp add: forward_termination_def emit_def Let_def)
next
  assume "iteration env l st = Ret (ro, l') st'" and "requestedTermination l"
  with iteration_latches [of env l st ro l' st'] show "requestedTermination l'" by blast
next
  assume "iteration env l st = Ret (ro, l') st'" and "notifiedTermination l"
  with iteration_latches [of env l st ro l' st'] show "notifiedTermination l'" by blast
next
  from umbrella_loop_spends [of st l envs] obtain l' where
    "spends (st, l) (res_state (umbrella_loop envs l st), l')" by blast
  then show "\<exists>evs. trace (res_state (umbrella_loop envs l st)) = trace st @ evs
          \<and> length (filter is_forward evs) \<le> (if requestedTermination l then 0 else 1)
          \<and> length (filter is_term_kill evs)
               \<le> (if requestedTermination l then 0 else 1) + length (filter is_reloading evs)
          \<and> length (filter is_stopping evs) \<le> (if notifiedTermination l then 0 else 1)"
    by (rule spends_counts)
next
  from Run_spends [of st renv] obtain l' where
    "spends (st, \<lparr>currentWorker = 0, requestedTermination = False,
                   notifiedTermination = False\<rparr>) (res_state (Run renv st), l')" by blast
  from spends_counts [OF this]
  show "\<exists>evs. trace (res_state (Run renv st)) = trace st @ evs
          \<and> length (filter is_forward evs) \<le> 1
          \<and> length (filter is_term_kill evs) \<le> 1 + length (filter is_reloading evs)
          \<and> length (filter is_stopping evs) \<le> 1"
    by simp
qed

lemma iteration_term_example:
  "iteration (iter_idle 100 still_running) (locals_init 4711)
       (umbrella_init\<lparr>l_TermSignal := SIGTERM\<rparr>)
     = Ret (None, \<lparr>currentWorker = 4711, requestedTermination = True,
                   notifiedTermination = True\<rparr>)
         (umbrella_init\<lparr>l_TermSignal := SIGTERM, l_LastNotifiedWatchdog := 100,
            trace := [ESdNotify ''WATCHDOG=1'', ELog (LogForwardTerm SIGTERM 4711),
                      EKill 4711 SIGTERM, ESdNotify ''STOPPING=1'',
                      EWaitpid 4711 True still_running]\<rparr>)"
  by (simp add: iter_idle_def still_running_def locals_init_def iter_defs eval_defs)

theorem term_signal_not_drained:
  "iteration (iter_idle 100 still_running) (locals_init 4711)
       (umbrella_init\<lparr>l_TermSignal := SIGTERM\<rparr>)
     = Ret (None, \<lparr>currentWorker = 4711, requestedTermination = True,
                   notifiedTermination = True\<rparr>)
         (umbrella_init\<lparr>l_TermSignal := SIGTERM, l_LastNotifiedWatchdog := 100,
            trace := [ESdNotify ''WATCHDOG=1'', ELog (LogForwardTerm SIGTERM 4711),
                      EKill 4711 SIGTERM, ESdNotify ''STOPPING=1'',
                      EWaitpid 4711 True still_running]\<rparr>)
   \<and> l_TermSignal (umbrella_init\<lparr>l_TermSignal := SIGTERM, l_LastNotifiedWatchdog := 100,
            trace := [ESdNotify ''WATCHDOG=1'', ELog (LogForwardTerm SIGTERM 4711),
                      EKill 4711 SIGTERM, ESdNotify ''STOPPING=1'',
                      EWaitpid 4711 True still_running]\<rparr>) \<noteq> -1"
  using iteration_term_example by (simp add: sig_defs)

lemma loop_term_example:
  "umbrella_loop [iter_signal 100 [(SIGTERM, 1)] still_running,
                  iter_idle 100.2 still_running,
                  iter_idle 100.4 (reported 4711 (WExited 0))] (locals_init 4711) umbrella_init
     = Ret 0
        (umbrella_init\<lparr>l_TermSignal := SIGTERM, l_LastNotifiedWatchdog := 100,
           trace := [ESdNotify ''WATCHDOG=1'', ESigDefault SIGTERM,
                     ELog (LogForwardTerm SIGTERM 4711), EKill 4711 SIGTERM,
                     ESdNotify ''STOPPING=1'', EWaitpid 4711 True still_running, ESleep,
                     EWaitpid 4711 True still_running, ESleep,
                     EWaitpid 4711 True (reported 4711 (WExited 0)),
                     ELog (LogWorkerStopped 4711)]\<rparr>)"
  by (simp add: iter_signal_def iter_idle_def still_running_def reported_def locals_init_def
        iter_defs eval_defs)

theorem termination_forwarded_once_witness:
  "umbrella_loop [iter_signal 100 [(SIGTERM, 1)] still_running,
                  iter_idle 100.2 still_running,
                  iter_idle 100.4 (reported 4711 (WExited 0))] (locals_init 4711) umbrella_init
     = Ret 0
        (umbrella_init\<lparr>l_TermSignal := SIGTERM, l_LastNotifiedWatchdog := 100,
           trace := [ESdNotify ''WATCHDOG=1'', ESigDefault SIGTERM,
                     ELog (LogForwardTerm SIGTERM 4711), EKill 4711 SIGTERM,
                     ESdNotify ''STOPPING=1'', EWaitpid 4711 True still_running, ESleep,
                     EWaitpid 4711 True still_running, ESleep,
                     EWaitpid 4711 True (reported 4711 (WExited 0)),
                     ELog (LogWorkerStopped 4711)]\<rparr>)
   \<and> filter is_kill
         [ESdNotify ''WATCHDOG=1'', ESigDefault SIGTERM,
          ELog (LogForwardTerm SIGTERM 4711), EKill 4711 SIGTERM,
          ESdNotify ''STOPPING=1'', EWaitpid 4711 True still_running, ESleep,
          EWaitpid 4711 True still_running, ESleep,
          EWaitpid 4711 True (reported 4711 (WExited 0)),
          ELog (LogWorkerStopped 4711)] = [EKill 4711 SIGTERM]
   \<and> forward_termination (locals_init 4711) (umbrella_init\<lparr>l_TermSignal := SIGTERM\<rparr>)
       = (\<lparr>currentWorker = 4711, requestedTermination = True, notifiedTermination = True\<rparr>,
          umbrella_init\<lparr>l_TermSignal := SIGTERM,
            trace := [ELog (LogForwardTerm SIGTERM 4711), EKill 4711 SIGTERM,
                      ESdNotify ''STOPPING=1'']\<rparr>)
   \<and> forward_termination
         \<lparr>currentWorker = 4711, requestedTermination = True, notifiedTermination = True\<rparr>
         (umbrella_init\<lparr>l_TermSignal := SIGTERM,
            trace := [ELog (LogForwardTerm SIGTERM 4711), EKill 4711 SIGTERM,
                      ESdNotify ''STOPPING=1'']\<rparr>)
       = (\<lparr>currentWorker = 4711, requestedTermination = True, notifiedTermination = True\<rparr>,
          umbrella_init\<lparr>l_TermSignal := SIGTERM,
            trace := [ELog (LogForwardTerm SIGTERM 4711), EKill 4711 SIGTERM,
                      ESdNotify ''STOPPING=1'']\<rparr>)"
proof -
  let ?l = "locals_init 4711"
  let ?st = "umbrella_init\<lparr>l_TermSignal := SIGTERM\<rparr>"
  let ?l1 = "\<lparr>currentWorker = 4711, requestedTermination = True, notifiedTermination = True\<rparr>"
  let ?st1 = "umbrella_init\<lparr>l_TermSignal := SIGTERM,
            trace := [ELog (LogForwardTerm SIGTERM 4711), EKill 4711 SIGTERM,
                      ESdNotify ''STOPPING=1'']\<rparr>"
  let ?renv = "\<lparr>first_spawn = spawn_loads 4712, iterations = []\<rparr>"
  have h: "\<not> requestedTermination ?l \<and> l_TermSignal ?st \<noteq> -1"
    by (simp add: locals_init_def sig_defs)
  from termination_forwarded_once [of ?l ?st "iter_idle 100 still_running" None ?l ?st "[]" ?renv] h
  have "forward_termination ?l ?st
          = (?l\<lparr>requestedTermination := True, notifiedTermination := True\<rparr>,
             ?st\<lparr>trace := trace ?st
                    @ [ELog (LogForwardTerm (l_TermSignal ?st) (currentWorker ?l)),
                       EKill (currentWorker ?l) (l_TermSignal ?st)]
                    @ (if notifiedTermination ?l then [] else [ESdNotify ''STOPPING=1''])\<rparr>)"
    by blast
  then have a: "forward_termination ?l ?st = (?l1, ?st1)"
    by (simp add: locals_init_def umbrella_init_def)
  have h1: "requestedTermination ?l1 \<or> l_TermSignal ?st1 = -1"
    by simp
  from termination_forwarded_once [of ?l1 ?st1 "iter_idle 100 still_running" None ?l1 ?st1 "[]" ?renv] h1
  have b: "forward_termination ?l1 ?st1 = (?l1, ?st1)"
    by blast
  have c: "filter is_kill
         [ESdNotify ''WATCHDOG=1'', ESigDefault SIGTERM,
          ELog (LogForwardTerm SIGTERM 4711), EKill 4711 SIGTERM,
          ESdNotify ''STOPPING=1'', EWaitpid 4711 True still_running, ESleep,
          EWaitpid 4711 True still_running, ESleep,
          EWaitpid 4711 True (reported 4711 (WExited 0)),
          ELog (LogWorkerStopped 4711)] = [EKill 4711 SIGTERM]"
    by simp
  from loop_term_example c a b show ?thesis by blast
qed

subsection \<open>Startup\<close>

text \<open>
  Claim C10.  When the first \<open>StartUnixWorker\<close> returns a worker, the next two things the
  umbrella does are \<open>kill(currentWorker, SIGUSR2)\<close> and the notification \<open>READY=1\<close>, in
  this order, and only then does it enter the supervision loop; nothing was sent to any
  process before, the spawn emitting no \<open>kill\<close>.  When the first \<open>StartUnixWorker\<close>
  returns \<open>-1\<close>, \<open>Run\<close> returns \<open>EXIT_FAILURE\<close> in the state the spawn left: the loop is
  never entered.
\<close>

theorem first_worker_released_at_once:
  assumes "StartUnixWorker (first_spawn env) st = Ret cw st1"
  shows "(cw = -1 \<longrightarrow> Run env st = Ret EXIT_FAILURE st1)
       \<and> (cw \<noteq> -1 \<longrightarrow>
            Run env st
              = umbrella_loop (iterations env)
                  \<lparr>currentWorker = cw, requestedTermination = False,
                   notifiedTermination = False\<rparr>
                  (st1\<lparr>trace := trace st1 @ [EKill cw SIGUSR2, ESdNotify ''READY=1'']\<rparr>)
            \<and> (\<exists>pre rest. list_all internal_event pre \<and> trace st1 = trace st @ pre
                  \<and> trace (res_state (Run env st))
                      = trace st @ pre @ [EKill cw SIGUSR2, ESdNotify ''READY=1''] @ rest))"
proof (intro conjI impI)
  assume "cw = -1"
  with assms show "Run env st = Ret EXIT_FAILURE st1"
    by (simp add: Run_def)
next
  let ?l = "\<lparr>currentWorker = cw, requestedTermination = False, notifiedTermination = False\<rparr>"
  let ?st2 = "st1\<lparr>trace := trace st1 @ [EKill cw SIGUSR2, ESdNotify ''READY=1'']\<rparr>"
  assume ok: "cw \<noteq> -1"
  with assms show run: "Run env st = umbrella_loop (iterations env) ?l ?st2"
    by (simp add: Run_def emit_def)
  from StartUnixWorker_runs [of st "first_spawn env"] assms obtain pre where
    pre: "trace st1 = trace st @ pre" "list_all internal_event pre"
    by (auto dest: runs_trace)
  from umbrella_loop_spends [of ?st2 ?l "iterations env"] obtain rest where
    "trace (res_state (umbrella_loop (iterations env) ?l ?st2)) = trace ?st2 @ rest"
    by (auto simp: spends_def)
  with run pre(1) have
    "trace (res_state (Run env st)) = trace st @ pre @ [EKill cw SIGUSR2, ESdNotify ''READY=1''] @ rest"
    by simp
  with pre show "\<exists>pre rest. list_all internal_event pre \<and> trace st1 = trace st @ pre
                  \<and> trace (res_state (Run env st))
                      = trace st @ pre @ [EKill cw SIGUSR2, ESdNotify ''READY=1''] @ rest"
    by blast
qed

theorem first_worker_released_at_once_witness:
  "Run \<lparr>first_spawn = spawn_fails 4712, iterations = [iter_idle 100.4 still_running]\<rparr>
       umbrella_init
     = Ret EXIT_FAILURE
        (umbrella_init\<lparr>l_LastNotifiedWatchdog := 100,
           trace := [ELog LogSpawning, EUninitializeBase, ESigBlock, EFork 4712, ESigUnblock,
                     ELog (LogSpawned 4712), ESdNotify ''WATCHDOG=1'', ESleep,
                     ELog LogWorkerFailed,
                     EWaitpid 4712 False \<lparr>w_ret = -1, w_status = WExited 0, w_errno = EINTR\<rparr>,
                     EWaitpid 4712 False \<lparr>w_ret = 4712, w_status = WExited 1, w_errno = EINTR\<rparr>,
                     EInitializeBase]\<rparr>)
   \<and> Run \<lparr>first_spawn = spawn_loads 4712,
           iterations = [iter_idle 100.4 (reported 4712 (WExited 0))]\<rparr> umbrella_init
     = Ret 0
        (umbrella_init\<lparr>l_LastNotifiedWatchdog := 100,
           trace := [ELog LogSpawning, EUninitializeBase, ESigBlock, EFork 4712, ESigUnblock,
                     ELog (LogSpawned 4712), ESdNotify ''WATCHDOG=1'', ESleep,
                     ELog LogWorkerLoaded, EInitializeBase,
                     EKill 4712 SIGUSR2, ESdNotify ''READY=1'',
                     EWaitpid 4712 True (reported 4712 (WExited 0)),
                     ELog (LogWorkerStopped 4712), ESdNotify ''STOPPING=1'']\<rparr>)"
proof -
  let ?e1 = "\<lparr>first_spawn = spawn_fails 4712, iterations = [iter_idle 100.4 still_running]\<rparr>"
  let ?e2 = "\<lparr>first_spawn = spawn_loads 4712,
              iterations = [iter_idle 100.4 (reported 4712 (WExited 0))]\<rparr>"
  have f1: "first_spawn ?e1 = spawn_fails 4712" and f2: "first_spawn ?e2 = spawn_loads 4712"
    by simp_all
  have s1: "StartUnixWorker (first_spawn ?e1) umbrella_init
     = Ret (-1)
        (umbrella_init\<lparr>l_LastNotifiedWatchdog := 100,
           trace := [ELog LogSpawning, EUninitializeBase, ESigBlock, EFork 4712, ESigUnblock,
                     ELog (LogSpawned 4712), ESdNotify ''WATCHDOG=1'', ESleep,
                     ELog LogWorkerFailed,
                     EWaitpid 4712 False \<lparr>w_ret = -1, w_status = WExited 0, w_errno = EINTR\<rparr>,
                     EWaitpid 4712 False \<lparr>w_ret = 4712, w_status = WExited 1, w_errno = EINTR\<rparr>,
                     EInitializeBase]\<rparr>)"
    unfolding f1 by (rule spawn_fails_run)
  have s2: "StartUnixWorker (first_spawn ?e2) umbrella_init
     = Ret 4712
        (umbrella_init\<lparr>l_LastNotifiedWatchdog := 100,
           trace := [ELog LogSpawning, EUninitializeBase, ESigBlock, EFork 4712, ESigUnblock,
                     ELog (LogSpawned 4712), ESdNotify ''WATCHDOG=1'', ESleep,
                     ELog LogWorkerLoaded, EInitializeBase]\<rparr>)"
    unfolding f2 by (rule spawn_loads_run)
  from first_worker_released_at_once [OF s1]
  have a: "Run ?e1 umbrella_init = Ret EXIT_FAILURE
        (umbrella_init\<lparr>l_LastNotifiedWatchdog := 100,
           trace := [ELog LogSpawning, EUninitializeBase, ESigBlock, EFork 4712, ESigUnblock,
                     ELog (LogSpawned 4712), ESdNotify ''WATCHDOG=1'', ESleep,
                     ELog LogWorkerFailed,
                     EWaitpid 4712 False \<lparr>w_ret = -1, w_status = WExited 0, w_errno = EINTR\<rparr>,
                     EWaitpid 4712 False \<lparr>w_ret = 4712, w_status = WExited 1, w_errno = EINTR\<rparr>,
                     EInitializeBase]\<rparr>)"
    by simp
  from first_worker_released_at_once [OF s2]
  have "Run ?e2 umbrella_init
          = umbrella_loop (iterations ?e2)
              \<lparr>currentWorker = 4712, requestedTermination = False, notifiedTermination = False\<rparr>
              (umbrella_init\<lparr>l_LastNotifiedWatchdog := 100,
           trace := [ELog LogSpawning, EUninitializeBase, ESigBlock, EFork 4712, ESigUnblock,
                     ELog (LogSpawned 4712), ESdNotify ''WATCHDOG=1'', ESleep,
                     ELog LogWorkerLoaded, EInitializeBase, EKill 4712 SIGUSR2, ESdNotify ''READY=1'']\<rparr>)"
    by (simp add: umbrella_init_def)
  then have b: "Run ?e2 umbrella_init = Ret 0
        (umbrella_init\<lparr>l_LastNotifiedWatchdog := 100,
           trace := [ELog LogSpawning, EUninitializeBase, ESigBlock, EFork 4712, ESigUnblock,
                     ELog (LogSpawned 4712), ESdNotify ''WATCHDOG=1'', ESleep,
                     ELog LogWorkerLoaded, EInitializeBase,
                     EKill 4712 SIGUSR2, ESdNotify ''READY=1'',
                     EWaitpid 4712 True (reported 4712 (WExited 0)),
                     ELog (LogWorkerStopped 4712), ESdNotify ''STOPPING=1'']\<rparr>)"
    by (simp add: iter_idle_def reported_def iter_defs eval_defs)
  from a b show ?thesis by (rule conjI)
qed

subsection \<open>The request flags over the loop\<close>

text \<open>
  Every part of the umbrella's code other than the two exchanges keeps the request flags
  within what the signals handled meanwhile allow; a batch of handled signals sets exactly
  the flags of the signals it holds.
\<close>

lemma delivered_simps [simp]:
  "\<not> delivered num []"
  "delivered num ((n, p) # sigs) = (num = n \<or> delivered num sigs)"
  "delivered num (xs @ ys) = (delivered num xs \<or> delivered num ys)"
  by (auto simp: delivered_def)

lemma delivered_mono: "delivered num xs \<Longrightarrow> set xs \<subseteq> set ys \<Longrightarrow> delivered num ys"
  by (auto simp: delivered_def)

lemma flags_within_same:
  "l_RequestedReload st' = l_RequestedReload st \<Longrightarrow>
   l_RequestedReopenLogs st' = l_RequestedReopenLogs st \<Longrightarrow>
   l_TermSignal st' = l_TermSignal st \<Longrightarrow> flags_within sigs st st'"
  by (simp add: flags_within_def)

lemma flags_within_refl [simp]: "flags_within sigs st st"
  by (simp add: flags_within_def)

lemma flags_within_trans:
  "flags_within s1 a b \<Longrightarrow> flags_within s2 b c \<Longrightarrow> flags_within (s1 @ s2) a c"
  by (auto simp: flags_within_def)

lemma flags_within_mono:
  "flags_within s a b \<Longrightarrow> set s \<subseteq> set s' \<Longrightarrow> flags_within s' a b"
  by (auto simp: flags_within_def dest: delivered_mono)

lemma flags_within_emit [simp]: "flags_within sigs st (emit e st)"
  by (simp add: flags_within_def emit_def)

lemma flags_within_then_emit: "flags_within sigs a b \<Longrightarrow> flags_within sigs a (emit e b)"
  by (simp add: flags_within_def emit_def)

lemma flags_within_NotifyWatchdog [simp]: "flags_within sigs st (NotifyWatchdog now st)"
  by (simp add: flags_within_def NotifyWatchdog_def emit_def)

lemma UmbrellaSignalHandler_flags:
  "UmbrellaSignalHandler num p st = Inr st' \<Longrightarrow>
     l_RequestedReload st' = (l_RequestedReload st \<or> num = SIGHUP)
     \<and> l_RequestedReopenLogs st' = (l_RequestedReopenLogs st \<or> num = SIGUSR1)
     \<and> (l_TermSignal st \<noteq> SIGUSR1 \<longrightarrow> l_TermSignal st' \<noteq> SIGUSR1)"
  by (auto simp: UmbrellaSignalHandler_def emit_def sig_defs split: if_splits)

lemma umbrella_signals_within:
  "flags_within sigs st (res_state (umbrella_signals sigs st))"
proof (induction sigs arbitrary: st)
  case Nil
  show ?case by simp
next
  case (Cons a sigs)
  obtain num p where a: "a = (num, p)" by (cases a)
  show ?case
  proof (cases "UmbrellaSignalHandler num p st")
    case (Inl e)
    with a show ?thesis by simp
  next
    case (Inr st1)
    from UmbrellaSignalHandler_flags [OF Inr] have "flags_within [(num, p)] st st1"
      by (simp add: flags_within_def)
    from flags_within_trans [OF this Cons.IH [of st1]] Inr a show ?thesis by simp
  qed
qed

lemma umbrella_signals_exact:
  "umbrella_signals sigs st = Ret u st' \<Longrightarrow>
     l_RequestedReload st' = (l_RequestedReload st \<or> delivered SIGHUP sigs)
     \<and> l_RequestedReopenLogs st' = (l_RequestedReopenLogs st \<or> delivered SIGUSR1 sigs)
     \<and> (l_TermSignal st \<noteq> SIGUSR1 \<longrightarrow> l_TermSignal st' \<noteq> SIGUSR1)"
proof (induction sigs arbitrary: st)
  case Nil
  then show ?case by simp
next
  case (Cons a sigs)
  obtain num p where a: "a = (num, p)" by (cases a)
  from Cons.prems a obtain st1 where h: "UmbrellaSignalHandler num p st = Inr st1"
    and r: "umbrella_signals sigs st1 = Ret u st'"
    by (auto split: sum.splits)
  from UmbrellaSignalHandler_flags [OF h] Cons.IH [OF r] a show ?case by auto
qed

lemma waitpid_retry_within:
  "flags_within (concat (map fst ws)) st (res_state (waitpid_retry pid ws st))"
proof (induction ws arbitrary: st)
  case Nil
  show ?case by simp
next
  case (Cons a ws)
  obtain sigs r now where a: "a = (sigs, r, now)" by (cases a)
  have s: "flags_within sigs st (res_state (umbrella_signals sigs st))"
    by (rule umbrella_signals_within)
  show ?case
  proof (cases "umbrella_signals sigs st")
    case (Ret u st1)
    let ?st2 = "emit (EWaitpid pid False r) st1"
    from s Ret have 1: "flags_within sigs st ?st2"
      by (simp add: flags_within_then_emit)
    have "flags_within [] ?st2 (NotifyWatchdog now ?st2)" by simp
    from flags_within_trans [OF 1 this] have 2: "flags_within sigs st (NotifyWatchdog now ?st2)"
      by simp
    from flags_within_trans [OF 2 Cons.IH [of "NotifyWatchdog now ?st2"]]
    have 3: "flags_within (sigs @ concat (map fst ws)) st
               (res_state (waitpid_retry pid ws (NotifyWatchdog now ?st2)))" .
    from flags_within_mono [OF 1, of "sigs @ concat (map fst ws)"]
    have 4: "flags_within (sigs @ concat (map fst ws)) st ?st2" by simp
    from Ret a 3 4 show ?thesis by (simp add: Let_def)
  qed (use flags_within_mono [OF s, of "sigs @ concat (map fst ws)"] a in simp_all)
qed

lemma await_worker_within:
  "flags_within (concat (map snd ps) @ concat (map fst rs)) st
     (res_state (await_worker pid ps rs st))"
proof (induction ps arbitrary: st)
  case Nil
  show ?case by simp
next
  case (Cons a ps)
  obtain now sigs where a: "a = (now, sigs)" by (cases a)
  let ?all = "sigs @ concat (map snd ps) @ concat (map fst rs)"
  have "flags_within [] st (NotifyWatchdog now st)" by simp
  from flags_within_trans [OF this umbrella_signals_within [of sigs]]
  have s: "flags_within sigs st (res_state (umbrella_signals sigs (NotifyWatchdog now st)))"
    by simp
  show ?case
  proof (cases "umbrella_signals sigs (NotifyWatchdog now st)")
    case (Ret u st1)
    with s have 1: "flags_within sigs st st1" by simp
    show ?thesis
    proof (cases "l_CurrentlyStartingUnixWorkerState st1")
      case Pending
      from flags_within_trans [OF flags_within_then_emit [OF 1] Cons.IH [of "emit ESleep st1"]]
        Ret a Pending show ?thesis by simp
    next
      case LoadedConfig
      from flags_within_mono [OF flags_within_then_emit [OF 1], of ?all] Ret a LoadedConfig
      show ?thesis by simp
    next
      case Failed
      let ?st2 = "emit (ELog LogWorkerFailed) st1"
      from flags_within_trans [OF flags_within_then_emit [OF 1] waitpid_retry_within [of rs ?st2 pid]]
      have "flags_within (sigs @ concat (map fst rs)) st (res_state (waitpid_retry pid rs ?st2))" .
      moreover have "set (sigs @ concat (map fst rs)) \<subseteq> set ?all" by auto
      ultimately have "flags_within ?all st (res_state (waitpid_retry pid rs ?st2))"
        by (rule flags_within_mono)
      with Ret a Failed show ?thesis
        by (auto split: res.splits)
    qed
  qed (use flags_within_mono [OF s, of ?all] a in simp_all)
qed

lemma reset_flags_within:
  "flags_within (sigs_reset_pid env @ sigs_reset_state env) st
     (res_state (reset_flags env pid st))"
proof -
  let ?all = "sigs_reset_pid env @ sigs_reset_state env"
  have s: "flags_within (sigs_reset_pid env) st
             (res_state (umbrella_signals (sigs_reset_pid env) st))"
    by (rule umbrella_signals_within)
  show ?thesis
  proof (cases "umbrella_signals (sigs_reset_pid env) st")
    case r1: (Ret u st1)
    let ?st1a = "st1\<lparr>l_CurrentlyStartingUnixWorkerPid := -1\<rparr>"
    have "flags_within [] st1 ?st1a" by (simp add: flags_within_def)
    from flags_within_trans [OF this umbrella_signals_within [of "sigs_reset_state env" ?st1a]]
    have "flags_within (sigs_reset_state env) st1
            (res_state (umbrella_signals (sigs_reset_state env) ?st1a))" by simp
    with s r1 have 2: "flags_within ?all st
            (res_state (umbrella_signals (sigs_reset_state env) ?st1a))"
      by (auto intro: flags_within_trans)
    show ?thesis
    proof (cases "umbrella_signals (sigs_reset_state env) ?st1a")
      case r2: (Ret u' st2)
      let ?st3 = "emit EInitializeBase (st2\<lparr>l_CurrentlyStartingUnixWorkerState := Pending\<rparr>)"
      from 2 r2 have 3: "flags_within ?all st ?st3"
        by (simp add: flags_within_def emit_def)
      then have "flags_within ?all st (emit (ELog LogInitFailed) ?st3)"
        by (rule flags_within_then_emit)
      with 3 r1 r2 show ?thesis by (simp add: reset_flags_def Let_def)
    qed (use 2 r1 in \<open>simp_all add: reset_flags_def\<close>)
  qed (use flags_within_mono [OF s, of ?all] in \<open>simp_all add: reset_flags_def\<close>)
qed

lemma StartUnixWorker_within:
  "flags_within (spawn_sigs env) st (res_state (StartUnixWorker env st))"
proof -
  let ?st1 = "emit EUninitializeBase (emit (ELog LogSpawning) st)"
  let ?st2 = "emit (EFork (fork_ret env)) (emit ESigBlock ?st1)"
  let ?st3 = "emit (ELog (LogSpawned (fork_ret env)))
                (emit ESigUnblock (?st2\<lparr>l_CurrentlyStartingUnixWorkerPid := fork_ret env\<rparr>))"
  let ?a = "concat (map snd (polls env)) @ concat (map fst (reap env))"
  let ?aw = "await_worker (fork_ret env) (polls env) (reap env) ?st3"
  have f: "flags_within sigs st ?st1" "flags_within sigs st (emit (ELog LogUninitFailed) ?st1)"
    "flags_within sigs st ?st2" "flags_within sigs st (emit (ELog LogForkFailed) ?st2)"
    "flags_within sigs st ?st3" for sigs
    by (simp_all add: flags_within_def emit_def)
  have all: "spawn_sigs env = ?a @ (sigs_reset_pid env @ sigs_reset_state env)"
    by (simp add: spawn_sigs_def)
  from flags_within_trans [OF f(5) [of "[]"] await_worker_within]
  have 4: "flags_within ?a st (res_state ?aw)" by simp
  show ?thesis
  proof (cases ?aw)
    case (Ret p st4)
    with 4 have "flags_within ?a st st4" by simp
    from flags_within_trans [OF this reset_flags_within [of env st4 p]]
    have "flags_within (spawn_sigs env) st (res_state (reset_flags env p st4))"
      by (simp add: all)
    with Ret f show ?thesis
      by (auto simp: StartUnixWorker_def Let_def)
  next
    case (Exit c st4)
    with flags_within_mono [OF 4, of "spawn_sigs env"] f show ?thesis
      by (auto simp: StartUnixWorker_def Let_def all)
  next
    case (Abort e st4)
    with flags_within_mono [OF 4, of "spawn_sigs env"] f show ?thesis
      by (auto simp: StartUnixWorker_def Let_def all)
  next
    case (Waiting st4)
    with flags_within_mono [OF 4, of "spawn_sigs env"] f show ?thesis
      by (auto simp: StartUnixWorker_def Let_def all)
  qed
qed

lemma reload_within:
  "flags_within (reload_sigs env) st (res_state (reload env l st))"
proof -
  let ?st0 = "emit (ESdNotify ''RELOADING=1'') (emit (ELog LogReloadStart) st)"
  let ?sp = "StartUnixWorker (it_spawn env) ?st0"
  let ?ws = "concat (map fst (it_wait_old env))"
  have "flags_within [] st ?st0" by (simp add: flags_within_def emit_def)
  from flags_within_trans [OF this StartUnixWorker_within [of "it_spawn env" ?st0]]
  have 1: "flags_within (spawn_sigs (it_spawn env)) st (res_state ?sp)" by simp
  have sub: "set (spawn_sigs (it_spawn env)) \<subseteq> set (reload_sigs env)"
    by (auto simp: reload_sigs_def)
  note f1 = flags_within_mono [OF 1 sub]
  show ?thesis
  proof (cases ?sp)
    case (Ret nw st1)
    with f1 have s1: "flags_within (reload_sigs env) st st1" by simp
    show ?thesis
    proof (cases "nw = -1")
      case True
      from s1 have "flags_within (reload_sigs env) st
                      (emit (ESdNotify ''READY=1'') (emit (ELog LogReloadAborted) st1))"
        by (intro flags_within_then_emit)
      with Ret True show ?thesis by (simp add: reload_def)
    next
      case False
      let ?st2 = "emit (EKill (currentWorker l) SIGTERM) (emit (ELog (LogReloadDone nw)) st1)"
      let ?w = "waitpid_retry (currentWorker l) (it_wait_old env) ?st2"
      from 1 Ret have "flags_within (spawn_sigs (it_spawn env)) st ?st2"
        by (simp add: flags_within_then_emit)
      from flags_within_trans [OF this waitpid_retry_within [of "it_wait_old env" ?st2 "currentWorker l"]]
      have 3: "flags_within (reload_sigs env) st (res_state ?w)"
        by (simp add: reload_sigs_def)
      show ?thesis
      proof (cases ?w)
        case w: (Ret u st3)
        with 3 have "flags_within (reload_sigs env) st st3" by simp
        then have "flags_within (reload_sigs env) st (emit (ESdNotify ''READY=1'')
                       (emit (EKill nw SIGUSR2) (emit (ELog LogWaitedForOld) st3)))"
          by (intro flags_within_then_emit)
        with w Ret False show ?thesis by (simp add: reload_def)
      qed (use 3 Ret False in \<open>simp_all add: reload_def\<close>)
    qed
  qed (use f1 in \<open>simp_all add: reload_def\<close>)
qed

text \<open>
  What the parts of an iteration append to the trace and do to the flags: only the two
  drains start a reload or send \<open>SIGUSR1\<close>, provided that \<open>l_TermSignal\<close> is not
  \<open>SIGUSR1\<close>, which the handler never stores there.
\<close>

lemma idle_filter:
  "list_all idle evs \<Longrightarrow> filter is_reloading evs = [] \<and> filter is_reopen_kill evs = []"
  by (induction evs) (auto simp: idle_def)

lemma runs_idle_filter:
  "runs idle st st' \<Longrightarrow>
     \<exists>evs. trace st' = trace st @ evs \<and> filter is_reloading evs = []
       \<and> filter is_reopen_kill evs = []"
  by (auto simp: runs_def dest: idle_filter)

lemma internal_event_idle: "internal_event e \<Longrightarrow> idle e"
  by (cases e) (auto simp: idle_def is_reloading_def)

lemma runs_internal_idle: "runs internal_event a b \<Longrightarrow> runs idle a b"
  by (erule runs_mono) (rule internal_event_idle)

lemma forward_termination_idle:
  assumes "l_TermSignal st \<noteq> SIGUSR1"
  shows "runs idle st (snd (forward_termination l st))"
proof -
  let ?s = "l_TermSignal st" and ?w = "currentWorker l"
  from assms have "idle (EKill ?w ?s)" "idle (ELog (LogForwardTerm ?s ?w))"
    "idle (ESdNotify ''STOPPING=1'')"
    by (simp_all add: idle_def is_reloading_def)
  then have "list_all idle [ELog (LogForwardTerm ?s ?w), EKill ?w ?s]"
    "list_all idle [ELog (LogForwardTerm ?s ?w), EKill ?w ?s, ESdNotify ''STOPPING=1'']"
    by simp_all
  then show ?thesis
    by (simp add: forward_termination_def Let_def runs_def emit_def)
qed

lemma forward_termination_flags:
  "l_RequestedReload (snd (forward_termination l st)) = l_RequestedReload st
   \<and> l_RequestedReopenLogs (snd (forward_termination l st)) = l_RequestedReopenLogs st
   \<and> l_TermSignal (snd (forward_termination l st)) = l_TermSignal st"
  by (simp add: forward_termination_def Let_def emit_def)

lemma check_worker_idle: "runs idle st (snd (check_worker r l st))"
  by (simp add: check_worker_def Let_def runs_def emit_def idle_def is_reloading_def)

lemma check_worker_flags:
  "l_RequestedReload (snd (check_worker r l st)) = l_RequestedReload st
   \<and> l_RequestedReopenLogs (snd (check_worker r l st)) = l_RequestedReopenLogs st
   \<and> l_TermSignal (snd (check_worker r l st)) = l_TermSignal st
   \<and> currentWorker (snd (fst (check_worker r l st))) = currentWorker l"
  by (simp add: check_worker_def Let_def emit_def)

lemma reload_if_requested_events:
  "\<exists>evs. trace (res_state (reload_if_requested env l st)) = trace st @ evs
     \<and> length (filter is_reloading evs) = (if l_RequestedReload st then 1 else 0)
     \<and> filter is_reopen_kill evs = []"
proof (cases "l_RequestedReload st")
  case True
  from reload_counts [of env l "st\<lparr>l_RequestedReload := False\<rparr>"] True show ?thesis
    by (auto simp: reload_if_requested_def exchange_RequestedReload_def)
next
  case False
  then show ?thesis
    by (simp add: reload_if_requested_def exchange_RequestedReload_def)
qed

lemma reload_if_requested_flags:
  assumes "reload_if_requested env l st = Ret l2 st'"
  shows "(l_RequestedReload st' \<longrightarrow> l_RequestedReload st \<and> delivered SIGHUP (reload_sigs env))
       \<and> (l_RequestedReopenLogs st \<longrightarrow> l_RequestedReopenLogs st')
       \<and> (l_RequestedReopenLogs st' \<longrightarrow>
            l_RequestedReopenLogs st
            \<or> l_RequestedReload st \<and> delivered SIGUSR1 (reload_sigs env))
       \<and> (l_TermSignal st \<noteq> SIGUSR1 \<longrightarrow> l_TermSignal st' \<noteq> SIGUSR1)"
proof (cases "l_RequestedReload st")
  case True
  let ?st = "st\<lparr>l_RequestedReload := False\<rparr>"
  from True assms have "reload env l ?st = Ret l2 st'"
    by (simp add: reload_if_requested_def exchange_RequestedReload_def)
  with reload_within [of env ?st l] have "flags_within (reload_sigs env) ?st st'" by simp
  with True show ?thesis by (simp add: flags_within_def)
next
  case False
  with assms have "st' = st\<lparr>l_RequestedReload := False\<rparr>"
    by (simp add: reload_if_requested_def exchange_RequestedReload_def)
  with False show ?thesis by simp
qed

lemma reopen_logs_events:
  "trace (reopen_logs_if_requested l st)
     = trace st @ (if l_RequestedReopenLogs st
                   then [ELog (LogForwardReopen SIGUSR1 (currentWorker l)),
                         EKill (currentWorker l) SIGUSR1]
                   else [])
   \<and> \<not> l_RequestedReopenLogs (reopen_logs_if_requested l st)
   \<and> l_RequestedReload (reopen_logs_if_requested l st) = l_RequestedReload st
   \<and> l_TermSignal (reopen_logs_if_requested l st) = l_TermSignal st"
  by (simp add: reopen_logs_if_requested_def exchange_RequestedReopenLogs_def emit_def)

text \<open>The requests served by an iteration that reaches its end.\<close>

lemma iteration_requests:
  assumes it: "iteration env l st = Ret (ro, l') st'"
    and ts: "l_TermSignal st \<noteq> SIGUSR1"
  shows "\<exists>evs. trace st' = trace st @ evs
     \<and> length (filter is_reloading evs)
          = (if l_RequestedReload st \<or> delivered SIGHUP (it_sigs_term env @ it_sigs_reload env)
             then 1 else 0)
     \<and> (l_RequestedReopenLogs st \<or> delivered SIGUSR1 (loop_sigs env) \<longrightarrow>
           filter is_reopen_kill evs = [EKill (currentWorker l') SIGUSR1])
     \<and> length (filter is_reopen_kill evs) \<le> 1
     \<and> (filter is_reopen_kill evs \<noteq> [] \<longrightarrow>
           l_RequestedReopenLogs st \<or> delivered SIGUSR1 (loop_sigs env)
           \<or> (l_RequestedReload st \<or> delivered SIGHUP (it_sigs_term env @ it_sigs_reload env))
              \<and> delivered SIGUSR1 (reload_sigs env))
     \<and> \<not> l_RequestedReopenLogs st'
     \<and> (delivered SIGHUP (it_sigs_reopen env) \<longrightarrow> l_RequestedReload st')
     \<and> (l_RequestedReload st' \<longrightarrow>
           delivered SIGHUP (it_sigs_reopen env)
           \<or> (l_RequestedReload st \<or> delivered SIGHUP (it_sigs_term env @ it_sigs_reload env))
              \<and> delivered SIGHUP (reload_sigs env))
     \<and> l_TermSignal st' \<noteq> SIGUSR1"
proof -
  let ?st0 = "NotifyWatchdog (it_now env) st"
  from iteration_Ret_parts [OF it] obtain st1 l1 st2 st3 l2 st4 st5 where
    s1: "umbrella_signals (it_sigs_term env) ?st0 = Ret () st1"
    and ft: "forward_termination l st1 = (l1, st2)"
    and s2: "umbrella_signals (it_sigs_reload env) st2 = Ret () st3"
    and rl: "reload_if_requested env l1 st3 = Ret l2 st4"
    and s3: "umbrella_signals (it_sigs_reopen env) st4 = Ret () st5"
    and cw: "check_worker (it_wait env) l2 (reopen_logs_if_requested l2 st5) = ((ro, l'), st')"
    by blast
  let ?st5r = "reopen_logs_if_requested l2 st5"
  \<comment> \<open>the flags along the iteration\<close>
  have f0: "l_RequestedReload ?st0 = l_RequestedReload st"
    "l_RequestedReopenLogs ?st0 = l_RequestedReopenLogs st" "l_TermSignal ?st0 = l_TermSignal st"
    by (simp_all add: NotifyWatchdog_def emit_def)
  note f1 = umbrella_signals_exact [OF s1]
  from forward_termination_flags [of l st1] ft have f2:
    "l_RequestedReload st2 = l_RequestedReload st1"
    "l_RequestedReopenLogs st2 = l_RequestedReopenLogs st1" "l_TermSignal st2 = l_TermSignal st1"
    by simp_all
  note f3 = umbrella_signals_exact [OF s2]
  note f4 = reload_if_requested_flags [OF rl]
  note f5 = umbrella_signals_exact [OF s3]
  note f6 = reopen_logs_events [of l2 st5]
  from check_worker_flags [of "it_wait env" l2 ?st5r] cw have f7:
    "l_RequestedReload st' = l_RequestedReload ?st5r"
    "l_RequestedReopenLogs st' = l_RequestedReopenLogs ?st5r"
    "l_TermSignal st' = l_TermSignal ?st5r" "currentWorker l' = currentWorker l2"
    by simp_all
  from f0 f1 ts have t1: "l_TermSignal st1 \<noteq> SIGUSR1" by simp
  have r3: "l_RequestedReload st3
              = (l_RequestedReload st \<or> delivered SIGHUP (it_sigs_term env @ it_sigs_reload env))"
    using f0 f1 f2 f3 by auto
  have l3: "l_RequestedReopenLogs st3
              = (l_RequestedReopenLogs st
                 \<or> delivered SIGUSR1 (it_sigs_term env @ it_sigs_reload env))"
    using f0 f1 f2 f3 by auto
  \<comment> \<open>the events along the iteration\<close>
  from runs_idle_filter [OF runs_internal_idle [OF NotifyWatchdog_runs [of st "it_now env"]]]
  obtain e0 where e0: "trace ?st0 = trace st @ e0" "filter is_reloading e0 = []"
    "filter is_reopen_kill e0 = []" by blast
  from runs_idle_filter [OF runs_internal_idle [OF umbrella_signals_Ret_runs [OF s1]]]
  obtain e1 where e1: "trace st1 = trace ?st0 @ e1" "filter is_reloading e1 = []"
    "filter is_reopen_kill e1 = []" by blast
  from runs_idle_filter [OF forward_termination_idle [OF t1, of l]] ft
  obtain e2 where e2: "trace st2 = trace st1 @ e2" "filter is_reloading e2 = []"
    "filter is_reopen_kill e2 = []" by auto
  from runs_idle_filter [OF runs_internal_idle [OF umbrella_signals_Ret_runs [OF s2]]]
  obtain e3 where e3: "trace st3 = trace st2 @ e3" "filter is_reloading e3 = []"
    "filter is_reopen_kill e3 = []" by blast
  from reload_if_requested_events [of env l1 st3] rl
  obtain e4 where e4: "trace st4 = trace st3 @ e4"
    "length (filter is_reloading e4) = (if l_RequestedReload st3 then 1 else 0)"
    "filter is_reopen_kill e4 = []" by auto
  from runs_idle_filter [OF runs_internal_idle [OF umbrella_signals_Ret_runs [OF s3]]]
  obtain e5 where e5: "trace st5 = trace st4 @ e5" "filter is_reloading e5 = []"
    "filter is_reopen_kill e5 = []" by blast
  let ?e6 = "if l_RequestedReopenLogs st5
             then [ELog (LogForwardReopen SIGUSR1 (currentWorker l2)),
                   EKill (currentWorker l2) SIGUSR1]
             else []"
  from f6 have e6: "trace ?st5r = trace st5 @ ?e6" by simp
  have e6f: "filter is_reloading ?e6 = []"
    "filter is_reopen_kill ?e6
       = (if l_RequestedReopenLogs st5 then [EKill (currentWorker l') SIGUSR1] else [])"
    by (simp_all add: is_reloading_def f7)
  from runs_idle_filter [OF check_worker_idle [of ?st5r "it_wait env" l2]] cw
  obtain e7 where e7: "trace st' = trace ?st5r @ e7" "filter is_reloading e7 = []"
    "filter is_reopen_kill e7 = []" by auto
  let ?evs = "e0 @ e1 @ e2 @ e3 @ e4 @ e5 @ ?e6 @ e7"
  have tr: "trace st' = trace st @ ?evs"
    using e0(1) e1(1) e2(1) e3(1) e4(1) e5(1) e6 e7(1) by simp
  have nr: "length (filter is_reloading ?evs) = (if l_RequestedReload st3 then 1 else 0)"
    using e0(2) e1(2) e2(2) e3(2) e4(2) e5(2) e6f(1) e7(2) by simp
  have nl: "filter is_reopen_kill ?evs
       = (if l_RequestedReopenLogs st5 then [EKill (currentWorker l') SIGUSR1] else [])"
    using e0(3) e1(3) e2(3) e3(3) e4(3) e5(3) e6f(2) e7(3) by simp
  \<comment> \<open>the flag that the reopening drain observes\<close>
  have l5a: "l_RequestedReopenLogs st \<or> delivered SIGUSR1 (loop_sigs env)
               \<Longrightarrow> l_RequestedReopenLogs st5"
    using l3 f4 f5 by (auto simp: loop_sigs_def)
  have l5b: "l_RequestedReopenLogs st5 \<Longrightarrow>
               l_RequestedReopenLogs st \<or> delivered SIGUSR1 (loop_sigs env)
               \<or> l_RequestedReload st3 \<and> delivered SIGUSR1 (reload_sigs env)"
    using l3 f4 f5 by (auto simp: loop_sigs_def)
  have rfin: "l_RequestedReload st' = l_RequestedReload st5"
    using f6 f7 by simp
  have r5a: "delivered SIGHUP (it_sigs_reopen env) \<Longrightarrow> l_RequestedReload st5"
    using f5 by simp
  have r5b: "l_RequestedReload st5 \<Longrightarrow>
               delivered SIGHUP (it_sigs_reopen env)
               \<or> l_RequestedReload st3 \<and> delivered SIGHUP (reload_sigs env)"
    using f4 f5 by auto
  have lfin: "\<not> l_RequestedReopenLogs st'"
    using f6 f7 by simp
  have tfin: "l_TermSignal st' \<noteq> SIGUSR1"
    using t1 f2 f3 f4 f5 f6 f7 by simp
  show ?thesis
  proof (intro exI [of _ ?evs] conjI impI)
    show "trace st' = trace st @ ?evs" by (rule tr)
    show "length (filter is_reloading ?evs)
          = (if l_RequestedReload st \<or> delivered SIGHUP (it_sigs_term env @ it_sigs_reload env)
             then 1 else 0)"
      using nr r3 by simp
    show "filter is_reopen_kill ?evs = [EKill (currentWorker l') SIGUSR1]"
      if "l_RequestedReopenLogs st \<or> delivered SIGUSR1 (loop_sigs env)"
      using nl l5a [OF that] by simp
    show "length (filter is_reopen_kill ?evs) \<le> 1"
      using nl by simp
    show "l_RequestedReopenLogs st \<or> delivered SIGUSR1 (loop_sigs env)
           \<or> (l_RequestedReload st \<or> delivered SIGHUP (it_sigs_term env @ it_sigs_reload env))
              \<and> delivered SIGUSR1 (reload_sigs env)"
      if "filter is_reopen_kill ?evs \<noteq> []"
    proof -
      from that nl have "l_RequestedReopenLogs st5" by (simp split: if_splits)
      from l5b [OF this] r3 show ?thesis by simp
    qed
    show "\<not> l_RequestedReopenLogs st'" by (rule lfin)
    show "l_RequestedReload st'" if "delivered SIGHUP (it_sigs_reopen env)"
      using r5a [OF that] rfin by simp
    show "delivered SIGHUP (it_sigs_reopen env)
           \<or> (l_RequestedReload st \<or> delivered SIGHUP (it_sigs_term env @ it_sigs_reload env))
              \<and> delivered SIGHUP (reload_sigs env)"
      if "l_RequestedReload st'"
      using r5b that rfin r3 by simp
    show "l_TermSignal st' \<noteq> SIGUSR1" by (rule tfin)
  qed
qed

text \<open>
  No reload and no \<open>kill\<close> with \<open>SIGUSR1\<close> without a request: over an iteration, the
  loop and \<open>Run\<close>, however they end.
\<close>

lemma caused_refl [simp]: "caused R L a a"
  by (simp add: caused_def)

lemma caused_trans:
  "caused R L a b \<Longrightarrow> caused R' L' b c \<Longrightarrow> caused (R \<or> R') (L \<or> L') a c"
  by (auto simp: caused_def)

lemma caused_mono:
  "caused R L a b \<Longrightarrow> (R \<Longrightarrow> R') \<Longrightarrow> (L \<Longrightarrow> L') \<Longrightarrow> caused R' L' a b"
  by (auto simp: caused_def)

lemma runs_idle_caused: "runs idle a b \<Longrightarrow> caused False False a b"
  by (auto simp: caused_def dest: runs_idle_filter)

lemma caused_then_idle:
  "caused R L a b \<Longrightarrow> runs idle b c \<Longrightarrow> caused R L a c"
  by (drule (1) caused_trans [OF _ runs_idle_caused]) simp

lemma umbrella_signals_caused:
  "caused False False st (res_state (umbrella_signals sigs st))"
  by (rule runs_idle_caused [OF runs_internal_idle [OF umbrella_signals_runs]])

lemma reload_if_requested_caused:
  "caused (l_RequestedReload st) False st (res_state (reload_if_requested env l st))"
  using reload_if_requested_events [of env l st]
  by (auto simp: caused_def split: if_splits)

lemma reopen_logs_caused:
  "caused False (l_RequestedReopenLogs st) st (reopen_logs_if_requested l st)"
  using reopen_logs_events [of l st]
  by (auto simp: caused_def is_reloading_def)

lemma iteration_caused:
  assumes ts: "l_TermSignal st \<noteq> SIGUSR1"
  shows "caused (l_RequestedReload st \<or> delivered SIGHUP (loop_sigs env))
           (l_RequestedReopenLogs st \<or> delivered SIGUSR1 (loop_sigs env @ reload_sigs env))
           st (res_state (iteration env l st))"
    (is "caused ?R ?L st _")
proof -
  let ?st0 = "NotifyWatchdog (it_now env) st"
  have a0: "caused ?R ?L st ?st0"
    by (rule caused_mono [OF runs_idle_caused
          [OF runs_internal_idle [OF NotifyWatchdog_runs]]]) simp_all
  have a1: "caused ?R ?L st (res_state (umbrella_signals (it_sigs_term env) ?st0))"
    by (rule caused_then_idle [OF a0 runs_internal_idle [OF umbrella_signals_runs]])
  have f0: "l_RequestedReload ?st0 = l_RequestedReload st"
    "l_RequestedReopenLogs ?st0 = l_RequestedReopenLogs st" "l_TermSignal ?st0 = l_TermSignal st"
    by (simp_all add: NotifyWatchdog_def emit_def)
  show ?thesis
  proof (cases "umbrella_signals (it_sigs_term env) ?st0")
    case r1: (Ret u1 st1)
    note f1 = umbrella_signals_exact [OF r1]
    from f0 f1 ts have t1: "l_TermSignal st1 \<noteq> SIGUSR1" by simp
    obtain l1 st2 where ft: "forward_termination l st1 = (l1, st2)"
      by (cases "forward_termination l st1")
    from forward_termination_flags [of l st1] ft have f2:
      "l_RequestedReload st2 = l_RequestedReload st1"
      "l_RequestedReopenLogs st2 = l_RequestedReopenLogs st1" "l_TermSignal st2 = l_TermSignal st1"
      by simp_all
    from forward_termination_idle [OF t1, of l] ft have "runs idle st1 st2" by simp
    with a1 r1 have a2: "caused ?R ?L st st2"
      by (auto intro: caused_then_idle)
    have a3: "caused ?R ?L st (res_state (umbrella_signals (it_sigs_reload env) st2))"
      by (rule caused_then_idle [OF a2 runs_internal_idle [OF umbrella_signals_runs]])
    show ?thesis
    proof (cases "umbrella_signals (it_sigs_reload env) st2")
      case r2: (Ret u2 st3)
      note f3 = umbrella_signals_exact [OF r2]
      have r3: "l_RequestedReload st3 \<Longrightarrow> ?R"
        using f0 f1 f2 f3 by (auto simp: loop_sigs_def)
      have l3: "l_RequestedReopenLogs st3 \<Longrightarrow> ?L"
        using f0 f1 f2 f3 by (auto simp: loop_sigs_def)
      from a3 r2 have "caused ?R ?L st st3" by simp
      from caused_trans [OF this reload_if_requested_caused [of st3 env l1]]
      have a4: "caused ?R ?L st (res_state (reload_if_requested env l1 st3))"
        by (rule caused_mono) (use r3 in auto)
      show ?thesis
      proof (cases "reload_if_requested env l1 st3")
        case r4: (Ret l2 st4)
        note f4 = reload_if_requested_flags [OF r4]
        from a4 r4 have a4': "caused ?R ?L st st4" by simp
        have a5: "caused ?R ?L st (res_state (umbrella_signals (it_sigs_reopen env) st4))"
          by (rule caused_then_idle [OF a4' runs_internal_idle [OF umbrella_signals_runs]])
        show ?thesis
        proof (cases "umbrella_signals (it_sigs_reopen env) st4")
          case r5: (Ret u5 st5)
          note f5 = umbrella_signals_exact [OF r5]
          let ?st5r = "reopen_logs_if_requested l2 st5"
          let ?c = "check_worker (it_wait env) l2 ?st5r"
          have l5: "l_RequestedReopenLogs st5 \<Longrightarrow> ?L"
            using f0 f1 f2 f3 f4 f5 by (auto simp: loop_sigs_def)
          from a5 r5 have "caused ?R ?L st st5" by simp
          from caused_trans [OF this reopen_logs_caused [of st5 l2]]
          have "caused ?R ?L st ?st5r"
            by (rule caused_mono) (use l5 in auto)
          from caused_then_idle [OF this check_worker_idle [of ?st5r "it_wait env" l2]]
          have a7: "caused ?R ?L st (snd ?c)" .
          have "iteration env l st = Ret (fst ?c) (snd ?c)"
            using r1 ft r2 r4 r5 by (simp add: iteration_def split: prod.splits)
          with a7 show ?thesis by simp
        qed (use a5 r1 ft r2 r4 in \<open>auto simp: iteration_def\<close>)
      qed (use a4 r1 ft r2 in \<open>auto simp: iteration_def\<close>)
    qed (use a3 r1 ft in \<open>auto simp: iteration_def\<close>)
  qed (use a1 in \<open>auto simp: iteration_def\<close>)
qed

lemma umbrella_loop_caused:
  assumes "l_TermSignal st \<noteq> SIGUSR1"
  shows "caused (l_RequestedReload st
                 \<or> (\<exists>env \<in> set envs. delivered SIGHUP (loop_sigs env @ reload_sigs env)))
           (l_RequestedReopenLogs st
            \<or> (\<exists>env \<in> set envs. delivered SIGUSR1 (loop_sigs env @ reload_sigs env)))
           st (res_state (umbrella_loop envs l st))"
  using assms
proof (induction envs arbitrary: l st)
  case Nil
  show ?case by simp
next
  case (Cons env envs)
  let ?R = "l_RequestedReload st
            \<or> (\<exists>e \<in> set (env # envs). delivered SIGHUP (loop_sigs e @ reload_sigs e))"
  let ?L = "l_RequestedReopenLogs st
            \<or> (\<exists>e \<in> set (env # envs). delivered SIGUSR1 (loop_sigs e @ reload_sigs e))"
  have a: "caused ?R ?L st (res_state (iteration env l st))"
    by (rule caused_mono [OF iteration_caused [OF Cons.prems, of env l]]) auto
  show ?case
  proof (cases "iteration env l st")
    case (Ret x st')
    obtain ro l' where x: "x = (ro, l')" by (cases x)
    from Ret x have it: "iteration env l st = Ret (ro, l') st'" by simp
    from a Ret have a1: "caused ?R ?L st st'" by simp
    show ?thesis
    proof (cases ro)
      case None
      let ?s = "emit ESleep st'"
      from iteration_requests [OF it Cons.prems] have
        fl: "\<not> l_RequestedReopenLogs st'"
        and fr: "l_RequestedReload st' \<Longrightarrow> ?R"
        and ft: "l_TermSignal st' \<noteq> SIGUSR1"
        by (auto simp: loop_sigs_def)
      have "runs idle st' ?s"
        by (rule runs_emit) (simp add: idle_def is_reloading_def)
      from caused_then_idle [OF a1 this] have a2: "caused ?R ?L st ?s" .
      from ft have "l_TermSignal ?s \<noteq> SIGUSR1" by (simp add: emit_def)
      from caused_trans [OF a2 Cons.IH [OF this, of l']]
      have "caused ?R ?L st (res_state (umbrella_loop envs l' ?s))"
        by (rule caused_mono) (use fl fr in \<open>auto simp: emit_def\<close>)
      with it None show ?thesis by simp
    next
      case (Some code)
      with it a1 show ?thesis by simp
    qed
  qed (use a in auto)
qed

lemma Run_caused:
  assumes ts: "l_TermSignal st \<noteq> SIGUSR1"
  shows "caused (l_RequestedReload st \<or> delivered SIGHUP (spawn_sigs (first_spawn renv))
                 \<or> (\<exists>env \<in> set (iterations renv).
                       delivered SIGHUP (loop_sigs env @ reload_sigs env)))
           (l_RequestedReopenLogs st \<or> delivered SIGUSR1 (spawn_sigs (first_spawn renv))
            \<or> (\<exists>env \<in> set (iterations renv).
                  delivered SIGUSR1 (loop_sigs env @ reload_sigs env)))
           st (res_state (Run renv st))"
    (is "caused ?R ?L st _")
proof -
  let ?sp = "StartUnixWorker (first_spawn renv) st"
  have a1: "caused ?R ?L st (res_state ?sp)"
    by (rule caused_mono [OF runs_idle_caused
          [OF runs_internal_idle [OF StartUnixWorker_runs]]]) simp_all
  note fw = StartUnixWorker_within [of "first_spawn renv" st, unfolded flags_within_def]
  show ?thesis
  proof (cases ?sp)
    case (Ret cw st1)
    let ?li = "\<lparr>currentWorker = cw, requestedTermination = False, notifiedTermination = False\<rparr>"
    let ?st2 = "emit (ESdNotify ''READY=1'') (emit (EKill cw SIGUSR2) st1)"
    show ?thesis
    proof (cases "cw = -1")
      case True
      with a1 Ret show ?thesis by (simp add: Run_def)
    next
      case False
      have "runs idle st1 ?st2"
        by (intro runs_then_emit runs_refl) (simp_all add: idle_def is_reloading_def sig_defs)
      with a1 Ret have a2: "caused ?R ?L st ?st2"
        by (auto intro: caused_then_idle)
      from fw Ret ts have t2: "l_TermSignal ?st2 \<noteq> SIGUSR1"
        and r2: "l_RequestedReload ?st2 \<Longrightarrow> ?R" and l2: "l_RequestedReopenLogs ?st2 \<Longrightarrow> ?L"
        by (auto simp: emit_def)
      from caused_trans [OF a2 umbrella_loop_caused [OF t2, of "iterations renv" ?li]]
      have "caused ?R ?L st (res_state (umbrella_loop (iterations renv) ?li ?st2))"
        by (rule caused_mono) (use r2 l2 in auto)
      with Ret False show ?thesis by (simp add: Run_def)
    qed
  qed (use a1 in \<open>auto simp: Run_def\<close>)
qed

text \<open>
  A request that is pending when an iteration starts, or that arrives before its drain, is
  served once over the whole loop when no further signal of its kind arrives.
\<close>

lemma umbrella_loop_acts_once:
  assumes it: "iteration env l st = Ret (ro, l') st'"
    and ts: "l_TermSignal st \<noteq> SIGUSR1"
  shows "\<exists>evs. trace (res_state (umbrella_loop (env # envs) l st)) = trace st @ evs
     \<and> (l_RequestedReload st \<or> delivered SIGHUP (it_sigs_term env @ it_sigs_reload env)
         \<longrightarrow> filter is_reloading evs \<noteq> [])
     \<and> (l_RequestedReopenLogs st \<or> delivered SIGUSR1 (loop_sigs env)
         \<longrightarrow> filter is_reopen_kill evs \<noteq> [])
     \<and> ((l_RequestedReload st \<or> delivered SIGHUP (it_sigs_term env @ it_sigs_reload env))
         \<and> \<not> delivered SIGHUP (it_sigs_reopen env @ reload_sigs env)
         \<and> (\<forall>e \<in> set envs. \<not> delivered SIGHUP (loop_sigs e @ reload_sigs e))
         \<longrightarrow> length (filter is_reloading evs) = 1)
     \<and> ((l_RequestedReopenLogs st \<or> delivered SIGUSR1 (loop_sigs env))
         \<and> (\<forall>e \<in> set envs. \<not> delivered SIGUSR1 (loop_sigs e @ reload_sigs e))
         \<longrightarrow> filter is_reopen_kill evs = [EKill (currentWorker l') SIGUSR1])"
proof -
  from iteration_requests [OF it ts] obtain e1 where
    t1: "trace st' = trace st @ e1"
    and n1: "length (filter is_reloading e1)
          = (if l_RequestedReload st \<or> delivered SIGHUP (it_sigs_term env @ it_sigs_reload env)
             then 1 else 0)"
    and k1: "l_RequestedReopenLogs st \<or> delivered SIGUSR1 (loop_sigs env) \<Longrightarrow>
           filter is_reopen_kill e1 = [EKill (currentWorker l') SIGUSR1]"
    and fl: "\<not> l_RequestedReopenLogs st'"
    and fr: "l_RequestedReload st' \<Longrightarrow>
           delivered SIGHUP (it_sigs_reopen env)
           \<or> (l_RequestedReload st \<or> delivered SIGHUP (it_sigs_term env @ it_sigs_reload env))
              \<and> delivered SIGHUP (reload_sigs env)"
    and ft: "l_TermSignal st' \<noteq> SIGUSR1"
    by blast
  show ?thesis
  proof (cases ro)
    case (Some code)
    with it have "res_state (umbrella_loop (env # envs) l st) = st'" by simp
    with t1 n1 k1 show ?thesis by (intro exI [of _ e1]) auto
  next
    case None
    let ?s = "emit ESleep st'"
    from ft have "l_TermSignal ?s \<noteq> SIGUSR1" by (simp add: emit_def)
    from umbrella_loop_caused [OF this, of envs l'] obtain e2 where
      t2: "trace (res_state (umbrella_loop envs l' ?s)) = trace ?s @ e2"
      and n2: "filter is_reloading e2 \<noteq> [] \<Longrightarrow>
           l_RequestedReload st'
           \<or> (\<exists>e \<in> set envs. delivered SIGHUP (loop_sigs e @ reload_sigs e))"
      and k2: "filter is_reopen_kill e2 \<noteq> [] \<Longrightarrow>
           (\<exists>e \<in> set envs. delivered SIGUSR1 (loop_sigs e @ reload_sigs e))"
      using fl by (auto simp: caused_def emit_def)
    from it None have "res_state (umbrella_loop (env # envs) l st)
        = res_state (umbrella_loop envs l' ?s)" by simp
    with t1 t2 have t: "trace (res_state (umbrella_loop (env # envs) l st))
        = trace st @ (e1 @ ESleep # e2)" by (simp add: emit_def)
    show ?thesis
    proof (intro exI [of _ "e1 @ ESleep # e2"] conjI impI)
      show "trace (res_state (umbrella_loop (env # envs) l st)) = trace st @ e1 @ ESleep # e2"
        by (rule t)
    next
      assume "l_RequestedReload st
              \<or> delivered SIGHUP (it_sigs_term env @ it_sigs_reload env)"
      with n1 have "filter is_reloading e1 \<noteq> []" by auto
      then show "filter is_reloading (e1 @ ESleep # e2) \<noteq> []" by simp
    next
      assume "l_RequestedReopenLogs st \<or> delivered SIGUSR1 (loop_sigs env)"
      from k1 [OF this] show "filter is_reopen_kill (e1 @ ESleep # e2) \<noteq> []" by simp
    next
      assume h: "(l_RequestedReload st
                  \<or> delivered SIGHUP (it_sigs_term env @ it_sigs_reload env))
         \<and> \<not> delivered SIGHUP (it_sigs_reopen env @ reload_sigs env)
         \<and> (\<forall>e \<in> set envs. \<not> delivered SIGHUP (loop_sigs e @ reload_sigs e))"
      with fr have "\<not> l_RequestedReload st'" by auto
      with n2 h have "filter is_reloading e2 = []" by blast
      with n1 h show "length (filter is_reloading (e1 @ ESleep # e2)) = 1"
        by (simp add: is_reloading_def)
    next
      assume h: "(l_RequestedReopenLogs st \<or> delivered SIGUSR1 (loop_sigs env))
         \<and> (\<forall>e \<in> set envs. \<not> delivered SIGUSR1 (loop_sigs e @ reload_sigs e))"
      with k2 have "filter is_reopen_kill e2 = []" by blast
      with k1 h show "filter is_reopen_kill (e1 @ ESleep # e2)
          = [EKill (currentWorker l') SIGUSR1]"
        by simp
    qed
  qed
qed

text \<open>A reload runs \<open>StartUnixWorker\<close> once it has announced itself.\<close>

lemma reload_spawns:
  "\<exists>rest. trace (res_state (reload env l st))
     = trace (res_state (StartUnixWorker (it_spawn env)
                (emit (ESdNotify ''RELOADING=1'') (emit (ELog LogReloadStart) st)))) @ rest"
proof -
  let ?sp = "StartUnixWorker (it_spawn env)
                (emit (ESdNotify ''RELOADING=1'') (emit (ELog LogReloadStart) st))"
  show ?thesis
  proof (cases ?sp)
    case (Ret nw st1)
    show ?thesis
    proof (cases "nw = -1")
      case True
      with Ret show ?thesis by (simp add: reload_def emit_def)
    next
      case False
      let ?s = "emit (EKill (currentWorker l) SIGTERM) (emit (ELog (LogReloadDone nw)) st1)"
      from runs_trace [OF waitpid_retry_runs [of ?s "currentWorker l" "it_wait_old env"]]
      obtain evs where
        "trace (res_state (waitpid_retry (currentWorker l) (it_wait_old env) ?s))
           = trace ?s @ evs" by blast
      with Ret False show ?thesis
        by (cases "waitpid_retry (currentWorker l) (it_wait_old env) ?s")
           (auto simp: reload_def emit_def)
    qed
  qed (simp_all add: reload_def)
qed

lemma iter_requests_run:
  "iteration iter_requests (locals_init 4711) umbrella_init
     = Ret (None, (locals_init 4711)\<lparr>currentWorker := 4712\<rparr>)
         (umbrella_init\<lparr>l_LastNotifiedWatchdog := 100,
            trace := [ESdNotify ''WATCHDOG=1'', ELog LogReloadStart, ESdNotify ''RELOADING=1'',
                      ELog LogSpawning, EUninitializeBase, ESigBlock, EFork 4712, ESigUnblock,
                      ELog (LogSpawned 4712), ESleep, ELog LogWorkerLoaded, EInitializeBase,
                      ELog (LogReloadDone 4712), EKill 4711 SIGTERM,
                      EWaitpid 4711 False (reported 4711 (WExited 0)),
                      ELog LogWaitedForOld, EKill 4712 SIGUSR2, ESdNotify ''READY=1'',
                      ELog (LogForwardReopen SIGUSR1 4712), EKill 4712 SIGUSR1,
                      EWaitpid 4712 True still_running]\<rparr>)"
  by (simp add: iter_requests_def spawn_loads_def still_running_def reported_def
        locals_init_def reload_def iter_defs eval_defs)

text \<open>
  Signals handled during a reload.  The two loops in which the handler runs during a
  reload go through their scripts round by round: a loop that is still waiting at the end
  of a shorter script goes on from there with the rest of the script, so that the round
  that follows is run; the requests of the signals handled in a round that is run are
  pending when the loop returns.
\<close>

lemma kept_refl [simp]: "kept st st"
  by (simp add: kept_def)

lemma kept_trans: "kept a b \<Longrightarrow> kept b c \<Longrightarrow> kept a c"
  by (simp add: kept_def)

lemma kept_emit [simp]: "kept st (emit e st)"
  by (simp add: kept_def emit_def)

lemma flags_within_kept: "flags_within sigs a b \<Longrightarrow> kept a b"
  by (simp add: flags_within_def kept_def)

lemma pending_after_kept: "pending_after sigs a \<Longrightarrow> kept a b \<Longrightarrow> pending_after sigs b"
  by (simp add: pending_after_def kept_def)

lemma pending_after_append:
  "pending_after (xs @ ys) st = (pending_after xs st \<and> pending_after ys st)"
  by (auto simp: pending_after_def)

lemma umbrella_signals_pending:
  "umbrella_signals sigs st = Ret u st' \<Longrightarrow> pending_after sigs st' \<and> kept st st'"
  using umbrella_signals_exact [of sigs st u st']
  by (simp add: pending_after_def kept_def)

lemma waitpid_retry_kept: "kept st (res_state (waitpid_retry pid ws st))"
  by (rule flags_within_kept [OF waitpid_retry_within])

lemma await_worker_kept: "kept st (res_state (await_worker pid ps rs st))"
  by (rule flags_within_kept [OF await_worker_within])

lemma reset_flags_kept: "kept st (res_state (reset_flags env pid st))"
  by (rule flags_within_kept [OF reset_flags_within])

lemma NotifyWatchdog_kept [simp]: "kept st (NotifyWatchdog now st)"
  by (simp add: kept_def NotifyWatchdog_def emit_def)

lemma waitpid_retry_resume:
  "waitpid_retry pid ws1 st = Waiting s \<Longrightarrow>
     waitpid_retry pid (ws1 @ ws2) st = waitpid_retry pid ws2 s"
proof (induction ws1 arbitrary: st)
  case Nil
  then show ?case by simp
next
  case (Cons a ws1)
  obtain sigs r now where a: "a = (sigs, r, now)" by (cases a)
  from Cons.prems a obtain u st1 where
    s: "umbrella_signals sigs st = Ret u st1"
    by (cases "umbrella_signals sigs st") simp_all
  let ?st2 = "emit (EWaitpid pid False r) st1"
  from Cons.prems a s have e: "w_ret r = -1 \<and> w_errno r = EINTR"
    and w: "waitpid_retry pid ws1 (NotifyWatchdog now ?st2) = Waiting s"
    by (simp_all add: Let_def split: if_splits)
  from Cons.IH [OF w] a s e show ?case by (simp add: Let_def)
qed

lemma waitpid_retry_head:
  assumes "waitpid_retry pid ((sigs, r, now) # ws) st = Ret u st'"
  shows "pending_after sigs st'"
proof -
  from assms obtain u1 st1 where
    s: "umbrella_signals sigs st = Ret u1 st1"
    by (cases "umbrella_signals sigs st") simp_all
  let ?st2 = "emit (EWaitpid pid False r) st1"
  from umbrella_signals_pending [OF s] have p1: "pending_after sigs st1" by simp
  have "kept st1 st'"
  proof (cases "w_ret r = -1 \<and> w_errno r = EINTR")
    case True
    with assms s have "waitpid_retry pid ws (NotifyWatchdog now ?st2) = Ret u st'"
      by (simp add: Let_def)
    with waitpid_retry_kept [of "NotifyWatchdog now ?st2" pid ws]
    have "kept (NotifyWatchdog now ?st2) st'" by simp
    moreover have "kept st1 (NotifyWatchdog now ?st2)"
      by (rule kept_trans [OF kept_emit NotifyWatchdog_kept])
    ultimately show ?thesis by (blast intro: kept_trans)
  next
    case False
    with assms s have "st' = ?st2" by (auto simp: Let_def)
    then show ?thesis by simp
  qed
  with p1 show ?thesis by (rule pending_after_kept)
qed

lemma waitpid_retry_round:
  assumes "waitpid_retry pid (ws1 @ (sigs, r, now) # ws2) st = Ret u st'"
    and "waitpid_retry pid ws1 st = Waiting s"
  shows "pending_after sigs st'"
  using waitpid_retry_resume [OF assms(2), of "(sigs, r, now) # ws2"] assms(1)
  by (auto intro: waitpid_retry_head)

lemma await_worker_resume_polls:
  "await_worker pid ps1 rs st = Waiting s \<Longrightarrow>
   await_worker pid (ps1 @ ps2) rs st = Ret p st' \<Longrightarrow>
     await_worker pid ps2 rs s = Ret p st'"
proof (induction ps1 arbitrary: st)
  case Nil
  then show ?case by simp
next
  case (Cons a ps1)
  obtain now sigs where a: "a = (now, sigs)" by (cases a)
  from Cons.prems(1) a obtain u st1 where
    s: "umbrella_signals sigs (NotifyWatchdog now st) = Ret u st1"
    by (cases "umbrella_signals sigs (NotifyWatchdog now st)") simp_all
  show ?case
  proof (cases "l_CurrentlyStartingUnixWorkerState st1")
    case Pending
    with Cons.prems a s have "await_worker pid ps1 rs (emit ESleep st1) = Waiting s"
      and "await_worker pid (ps1 @ ps2) rs (emit ESleep st1) = Ret p st'"
      by simp_all
    then show ?thesis by (rule Cons.IH)
  next
    case LoadedConfig
    with Cons.prems(1) a s show ?thesis by simp
  next
    case Failed
    with Cons.prems a s show ?thesis
      by (auto split: res.splits)
  qed
qed

lemma await_worker_head:
  assumes "await_worker pid ((now, sigs) # ps) rs st = Ret p st'"
  shows "pending_after sigs st'"
proof -
  from assms obtain u st1 where
    s: "umbrella_signals sigs (NotifyWatchdog now st) = Ret u st1"
    by (cases "umbrella_signals sigs (NotifyWatchdog now st)") simp_all
  from umbrella_signals_pending [OF s] have p1: "pending_after sigs st1" by simp
  have "kept st1 st'"
  proof (cases "l_CurrentlyStartingUnixWorkerState st1")
    case Pending
    with assms s have "await_worker pid ps rs (emit ESleep st1) = Ret p st'" by simp
    with await_worker_kept [of "emit ESleep st1" pid ps rs]
    have "kept (emit ESleep st1) st'" by simp
    with kept_emit [of st1 ESleep] show ?thesis by (blast intro: kept_trans)
  next
    case LoadedConfig
    with assms s show ?thesis by auto
  next
    case Failed
    let ?st2 = "emit (ELog LogWorkerFailed) st1"
    from Failed assms s obtain u' where "waitpid_retry pid rs ?st2 = Ret u' st'"
      by (auto split: res.splits)
    with waitpid_retry_kept [of ?st2 pid rs] have "kept ?st2 st'" by simp
    with kept_emit [of st1 "ELog LogWorkerFailed"] show ?thesis by (blast intro: kept_trans)
  qed
  with p1 show ?thesis by (rule pending_after_kept)
qed

lemma await_worker_round:
  assumes "await_worker pid (ps1 @ (now, sigs) # ps2) rs st = Ret p st'"
    and "await_worker pid ps1 rs st = Waiting s"
  shows "pending_after sigs st'"
  using await_worker_resume_polls [OF assms(2) assms(1)]
  by (rule await_worker_head)

lemma await_worker_resume_reap:
  "await_worker pid ps rs1 st = Waiting s \<Longrightarrow>
   await_worker pid ps (rs1 @ rs2) st = Ret p st' \<Longrightarrow>
     \<exists>u. waitpid_retry pid rs2 s = Ret u st'"
proof (induction ps arbitrary: st)
  case Nil
  then show ?case by simp
next
  case (Cons a ps)
  obtain now sigs where a: "a = (now, sigs)" by (cases a)
  from Cons.prems(1) a obtain u st1 where
    s: "umbrella_signals sigs (NotifyWatchdog now st) = Ret u st1"
    by (cases "umbrella_signals sigs (NotifyWatchdog now st)") simp_all
  show ?case
  proof (cases "l_CurrentlyStartingUnixWorkerState st1")
    case Pending
    with Cons.prems a s have "await_worker pid ps rs1 (emit ESleep st1) = Waiting s"
      and "await_worker pid ps (rs1 @ rs2) (emit ESleep st1) = Ret p st'"
      by simp_all
    then show ?thesis by (rule Cons.IH)
  next
    case LoadedConfig
    with Cons.prems(1) a s show ?thesis by simp
  next
    case Failed
    let ?st2 = "emit (ELog LogWorkerFailed) st1"
    from Failed Cons.prems(1) a s have w: "waitpid_retry pid rs1 ?st2 = Waiting s"
      by (auto split: res.splits)
    from Failed Cons.prems(2) a s obtain u' where
      "waitpid_retry pid (rs1 @ rs2) ?st2 = Ret u' st'"
      by (auto split: res.splits)
    with waitpid_retry_resume [OF w, of rs2] show ?thesis by simp
  qed
qed

lemma await_worker_reap_round:
  assumes "await_worker pid ps (rs1 @ (sigs, r, now) # rs2) st = Ret p st'"
    and "await_worker pid ps rs1 st = Waiting s"
  shows "pending_after sigs st'"
  using await_worker_resume_reap [OF assms(2) assms(1)]
  by (auto intro: waitpid_retry_head)

lemma reset_flags_not_waiting [simp]: "reset_flags env pid st \<noteq> Waiting s"
  by (simp add: reset_flags_def Let_def split: res.splits)

lemma reset_flags_pending:
  assumes "reset_flags env pid st = Ret p st'"
  shows "pending_after (sigs_reset_pid env @ sigs_reset_state env) st'"
proof -
  from assms obtain u st1 u' st2 where
    s1: "umbrella_signals (sigs_reset_pid env) st = Ret u st1"
    and s2: "umbrella_signals (sigs_reset_state env)
               (st1\<lparr>l_CurrentlyStartingUnixWorkerPid := -1\<rparr>) = Ret u' st2"
    and st': "st' = emit EInitializeBase (st2\<lparr>l_CurrentlyStartingUnixWorkerState := Pending\<rparr>)"
    by (auto simp: reset_flags_def Let_def split: res.splits if_splits)
  from umbrella_signals_pending [OF s1] umbrella_signals_pending [OF s2] st'
  show ?thesis
    by (auto simp: pending_after_def kept_def emit_def)
qed

text \<open>
  The same for \<open>StartUnixWorker\<close>, and the parts of a reload and of an iteration that
  come after: what is pending after the spawn, and after the wait for the old worker, is
  pending after the reload; what is pending after the reload is pending at the end of the
  iteration (a reload) or served by the drain that follows (a reopening of the logs).
\<close>

lemma StartUnixWorker_Ret_parts:
  assumes "StartUnixWorker sp st = Ret p st'"
  shows "\<exists>pid' st4.
           await_worker (fork_ret sp) (polls sp) (reap sp)
               (emit (ELog (LogSpawned (fork_ret sp)))
                  (emit ESigUnblock
                     ((emit (EFork (fork_ret sp))
                         (emit ESigBlock (emit EUninitializeBase (emit (ELog LogSpawning) st))))
                      \<lparr>l_CurrentlyStartingUnixWorkerPid := fork_ret sp\<rparr>)))
             = Ret pid' st4
           \<and> reset_flags sp pid' st4 = Ret p st'
           \<and> uninit_ok sp \<and> fork_ret sp \<noteq> -1 \<and> fork_ret sp \<noteq> 0"
  using assms
  by (auto simp: StartUnixWorker_def Let_def split: if_splits res.splits)

lemma StartUnixWorker_Waiting_parts:
  assumes "StartUnixWorker sp st = Waiting s"
  shows "await_worker (fork_ret sp) (polls sp) (reap sp)
               (emit (ELog (LogSpawned (fork_ret sp)))
                  (emit ESigUnblock
                     ((emit (EFork (fork_ret sp))
                         (emit ESigBlock (emit EUninitializeBase (emit (ELog LogSpawning) st))))
                      \<lparr>l_CurrentlyStartingUnixWorkerPid := fork_ret sp\<rparr>)))
             = Waiting s"
  using assms
  by (auto simp: StartUnixWorker_def Let_def split: if_splits res.splits)

lemma StartUnixWorker_poll_round:
  assumes r: "StartUnixWorker sp st = Ret p st'"
    and ps: "polls sp = ps1 @ (now, sigs) # ps2"
    and w: "StartUnixWorker (sp\<lparr>polls := ps1\<rparr>) st = Waiting s"
  shows "pending_after sigs st'"
proof -
  from StartUnixWorker_Ret_parts [OF r] ps obtain pid' st4 where
    aw: "await_worker (fork_ret sp) (ps1 @ (now, sigs) # ps2) (reap sp)
               (emit (ELog (LogSpawned (fork_ret sp)))
                  (emit ESigUnblock
                     ((emit (EFork (fork_ret sp))
                         (emit ESigBlock (emit EUninitializeBase (emit (ELog LogSpawning) st))))
                      \<lparr>l_CurrentlyStartingUnixWorkerPid := fork_ret sp\<rparr>)))
             = Ret pid' st4"
    and rf: "reset_flags sp pid' st4 = Ret p st'"
    by auto
  from StartUnixWorker_Waiting_parts [OF w]
  have "pending_after sigs st4"
    by (intro await_worker_round [OF aw]) simp
  moreover from reset_flags_kept [of st4 sp pid'] rf have "kept st4 st'" by simp
  ultimately show ?thesis by (rule pending_after_kept)
qed

lemma StartUnixWorker_reap_round:
  assumes r: "StartUnixWorker sp st = Ret p st'"
    and rs: "reap sp = rs1 @ (sigs, wr, now) # rs2"
    and w: "StartUnixWorker (sp\<lparr>reap := rs1\<rparr>) st = Waiting s"
  shows "pending_after sigs st'"
proof -
  from StartUnixWorker_Ret_parts [OF r] rs obtain pid' st4 where
    aw: "await_worker (fork_ret sp) (polls sp) (rs1 @ (sigs, wr, now) # rs2)
               (emit (ELog (LogSpawned (fork_ret sp)))
                  (emit ESigUnblock
                     ((emit (EFork (fork_ret sp))
                         (emit ESigBlock (emit EUninitializeBase (emit (ELog LogSpawning) st))))
                      \<lparr>l_CurrentlyStartingUnixWorkerPid := fork_ret sp\<rparr>)))
             = Ret pid' st4"
    and rf: "reset_flags sp pid' st4 = Ret p st'"
    by auto
  from StartUnixWorker_Waiting_parts [OF w]
  have "pending_after sigs st4"
    by (intro await_worker_reap_round [OF aw]) simp
  moreover from reset_flags_kept [of st4 sp pid'] rf have "kept st4 st'" by simp
  ultimately show ?thesis by (rule pending_after_kept)
qed

lemma StartUnixWorker_reset_batches:
  assumes "StartUnixWorker sp st = Ret p st'"
  shows "pending_after (sigs_reset_pid sp @ sigs_reset_state sp) st'"
  using StartUnixWorker_Ret_parts [OF assms] by (auto intro: reset_flags_pending)

lemma reload_parts:
  assumes "reload env l st = Ret l2 st'"
  shows "\<exists>nw s1.
           StartUnixWorker (it_spawn env)
               (emit (ESdNotify ''RELOADING=1'') (emit (ELog LogReloadStart) st)) = Ret nw s1
           \<and> kept s1 st'
           \<and> (nw \<noteq> -1 \<longrightarrow>
                (\<exists>u s3. waitpid_retry (currentWorker l) (it_wait_old env)
                            (emit (EKill (currentWorker l) SIGTERM)
                               (emit (ELog (LogReloadDone nw)) s1)) = Ret u s3
                         \<and> kept s3 st'))"
proof -
  let ?sp = "StartUnixWorker (it_spawn env)
               (emit (ESdNotify ''RELOADING=1'') (emit (ELog LogReloadStart) st))"
  from assms obtain nw s1 where sp: "?sp = Ret nw s1"
    by (cases ?sp) (simp_all add: reload_def)
  let ?s2 = "emit (EKill (currentWorker l) SIGTERM) (emit (ELog (LogReloadDone nw)) s1)"
  let ?w = "waitpid_retry (currentWorker l) (it_wait_old env) ?s2"
  show ?thesis
  proof (cases "nw = -1")
    case True
    with assms sp have "st' = emit (ESdNotify ''READY=1'') (emit (ELog LogReloadAborted) s1)"
      by (simp add: reload_def)
    then have "kept s1 st'" by (simp add: kept_def emit_def)
    with sp True show ?thesis by simp
  next
    case False
    with assms sp obtain u s3 where w: "?w = Ret u s3"
      and st': "st' = emit (ESdNotify ''READY=1'')
                        (emit (EKill nw SIGUSR2) (emit (ELog LogWaitedForOld) s3))"
      by (cases ?w) (simp_all add: reload_def)
    from st' have k3: "kept s3 st'" by (simp add: kept_def emit_def)
    from waitpid_retry_kept [of ?s2 "currentWorker l" "it_wait_old env"] w
    have "kept ?s2 s3" by simp
    moreover have "kept s1 ?s2" by (simp add: kept_def emit_def)
    ultimately have "kept s1 st'" using k3 by (blast intro: kept_trans)
    with sp w k3 show ?thesis by blast
  qed
qed

lemma iteration_reload_part:
  assumes it: "iteration env l st = Ret (ro, l') st'"
    and ts: "l_TermSignal st \<noteq> SIGUSR1"
    and rp: "l_RequestedReload st \<or> delivered SIGHUP (it_sigs_term env @ it_sigs_reload env)"
  shows "\<exists>l1 s3 l2 s4 evs.
           reload env l1 s3 = Ret l2 s4 \<and> \<not> l_RequestedReload s3
           \<and> trace st' = trace s4 @ evs \<and> filter is_reloading evs = []
           \<and> (l_RequestedReload s4 \<longrightarrow> l_RequestedReload st')
           \<and> (l_RequestedReopenLogs s4 \<longrightarrow>
                 filter is_reopen_kill evs = [EKill (currentWorker l') SIGUSR1])"
proof -
  let ?st0 = "NotifyWatchdog (it_now env) st"
  from iteration_Ret_parts [OF it] obtain st1 l1 st2 st3 l2 st4 st5 where
    s1: "umbrella_signals (it_sigs_term env) ?st0 = Ret () st1"
    and ft: "forward_termination l st1 = (l1, st2)"
    and s2: "umbrella_signals (it_sigs_reload env) st2 = Ret () st3"
    and rl: "reload_if_requested env l1 st3 = Ret l2 st4"
    and s3: "umbrella_signals (it_sigs_reopen env) st4 = Ret () st5"
    and cw: "check_worker (it_wait env) l2 (reopen_logs_if_requested l2 st5) = ((ro, l'), st')"
    by blast
  let ?st5r = "reopen_logs_if_requested l2 st5"
  have f0: "l_RequestedReload ?st0 = l_RequestedReload st"
    by (simp add: NotifyWatchdog_def emit_def)
  note f1 = umbrella_signals_exact [OF s1]
  from forward_termination_flags [of l st1] ft have f2:
    "l_RequestedReload st2 = l_RequestedReload st1" by simp
  note f3 = umbrella_signals_exact [OF s2]
  from rp f0 f1 f2 f3 have r3: "l_RequestedReload st3" by auto
  let ?s3 = "st3\<lparr>l_RequestedReload := False\<rparr>"
  from r3 rl have re: "reload env l1 ?s3 = Ret l2 st4"
    by (simp add: reload_if_requested_def exchange_RequestedReload_def)
  note f5 = umbrella_signals_exact [OF s3]
  note f6 = reopen_logs_events [of l2 st5]
  from check_worker_flags [of "it_wait env" l2 ?st5r] cw have f7:
    "l_RequestedReload st' = l_RequestedReload ?st5r" "currentWorker l' = currentWorker l2"
    by simp_all
  from runs_idle_filter [OF runs_internal_idle [OF umbrella_signals_Ret_runs [OF s3]]]
  obtain e5 where e5: "trace st5 = trace st4 @ e5" "filter is_reloading e5 = []"
    "filter is_reopen_kill e5 = []" by blast
  let ?e6 = "if l_RequestedReopenLogs st5
             then [ELog (LogForwardReopen SIGUSR1 (currentWorker l2)),
                   EKill (currentWorker l2) SIGUSR1]
             else []"
  from f6 have e6: "trace ?st5r = trace st5 @ ?e6" by simp
  have e6f: "filter is_reloading ?e6 = []"
    "filter is_reopen_kill ?e6
       = (if l_RequestedReopenLogs st5 then [EKill (currentWorker l') SIGUSR1] else [])"
    by (simp_all add: is_reloading_def f7)
  from runs_idle_filter [OF check_worker_idle [of ?st5r "it_wait env" l2]] cw
  obtain e7 where e7: "trace st' = trace ?st5r @ e7" "filter is_reloading e7 = []"
    "filter is_reopen_kill e7 = []" by auto
  let ?evs = "e5 @ ?e6 @ e7"
  have t: "trace st' = trace st4 @ ?evs"
    using e5(1) e6 e7(1) by simp
  have nr: "filter is_reloading ?evs = []"
    using e5(2) e6f(1) e7(2) by simp
  have nl: "filter is_reopen_kill ?evs
       = (if l_RequestedReopenLogs st5 then [EKill (currentWorker l') SIGUSR1] else [])"
    using e5(3) e6f(2) e7(3) by simp
  have a: "l_RequestedReload st4 \<longrightarrow> l_RequestedReload st'"
    using f5 f6 f7 by simp
  have b: "l_RequestedReopenLogs st4 \<longrightarrow>
             filter is_reopen_kill ?evs = [EKill (currentWorker l') SIGUSR1]"
  proof
    assume "l_RequestedReopenLogs st4"
    with f5 have "l_RequestedReopenLogs st5" by simp
    with nl show "filter is_reopen_kill ?evs = [EKill (currentWorker l') SIGUSR1]"
      by (simp only: if_True)
  qed
  have c: "\<not> l_RequestedReload ?s3" by simp
  from re c t nr a b show ?thesis by blast
qed

text \<open>
  A \<open>SIGHUP\<close> that is handled while a reload polls for its new worker is pending when
  the reload is over, and starts the next reload in the following iteration.
\<close>

lemma request_during_reload_example:
  "umbrella_loop
     [iter_reload 100 (spawn_loads_hup 4712) [([], reported 4711 (WExited 0), 100.6)]
        still_running,
      \<lparr>it_now = 100.8, it_sigs_term = [], it_sigs_reload = [], it_spawn = spawn_loads 4713,
        it_wait_old = [([], reported 4712 (WExited 0), 101)], it_sigs_reopen = [],
        it_wait = still_running\<rparr>,
      iter_idle 101.2 (reported 4713 (WExited 0))] (locals_init 4711) umbrella_init
   = Ret 0
       (umbrella_init\<lparr>l_LastNotifiedWatchdog := 100,
          trace := [ESdNotify ''WATCHDOG=1'', ELog LogReloadStart, ESdNotify ''RELOADING=1'',
                    ELog LogSpawning, EUninitializeBase, ESigBlock, EFork 4712, ESigUnblock,
                    ELog (LogSpawned 4712), ESleep, ELog LogWorkerLoaded, EInitializeBase,
                    ELog (LogReloadDone 4712), EKill 4711 SIGTERM,
                    EWaitpid 4711 False (reported 4711 (WExited 0)),
                    ELog LogWaitedForOld, EKill 4712 SIGUSR2, ESdNotify ''READY=1'',
                    EWaitpid 4712 True still_running, ESleep,
                    ELog LogReloadStart, ESdNotify ''RELOADING=1'',
                    ELog LogSpawning, EUninitializeBase, ESigBlock, EFork 4713, ESigUnblock,
                    ELog (LogSpawned 4713), ESleep, ELog LogWorkerLoaded, EInitializeBase,
                    ELog (LogReloadDone 4713), EKill 4712 SIGTERM,
                    EWaitpid 4712 False (reported 4712 (WExited 0)),
                    ELog LogWaitedForOld, EKill 4713 SIGUSR2, ESdNotify ''READY=1'',
                    EWaitpid 4713 True still_running, ESleep,
                    EWaitpid 4713 True (reported 4713 (WExited 0)),
                    ELog (LogWorkerStopped 4713), ESdNotify ''STOPPING=1'']\<rparr>)"
  by (simp add: iter_reload_def iter_idle_def spawn_loads_hup_def spawn_loads_def
        still_running_def reported_def locals_init_def iter_defs eval_defs)

text \<open>
  Claim C7.  The flags \<open>l_RequestedReload\<close> and \<open>l_RequestedReopenLogs\<close> are set by
  the handler and cleared by nothing but their own exchange in the main loop, and each
  exchange that observes true acts once.  In the order of the conjuncts:

  \<^item> After a batch of handled signals a flag holds exactly if it held before or its signal
    (\<open>SIGHUP\<close>, \<open>SIGUSR1\<close>) was in the batch.

  \<^item> After a batch with one or more \<open>SIGHUP\<close> the next exchange of \<open>l_RequestedReload\<close>
    observes true and leaves the flag false, a further exchange with no delivery in between
    observes false, the first drain runs the reload and the second does nothing.  The same
    holds for \<open>SIGUSR1\<close> and \<open>l_RequestedReopenLogs\<close>: the first drain forwards
    \<open>SIGUSR1\<close> to the worker once, the second does nothing.

  \<^item> The exchange of one flag leaves the other flag as it is.

  \<^item> A reload announces itself and runs \<open>StartUnixWorker\<close>, and however it ends it has
    cleared neither flag.

  \<^item> Over an iteration that reaches its end, started in any state in which
    \<open>l_TermSignal\<close> is not \<open>SIGUSR1\<close> (the handler stores only \<open>SIGINT\<close> and
    \<open>SIGTERM\<close> there): a reload starts exactly once if the request was pending or a
    \<open>SIGHUP\<close> was handled before the exchange, and not at all otherwise; if the request
    was pending or a \<open>SIGUSR1\<close> was handled at one of the three points of the iteration,
    exactly one \<open>kill\<close> with \<open>SIGUSR1\<close> is sent, to the worker that is current after
    the reload; there is never more than one, and none unless requested or a \<open>SIGUSR1\<close>
    arrived during the reload; at the end \<open>l_RequestedReopenLogs\<close> is false, and
    \<open>l_RequestedReload\<close> holds if a \<open>SIGHUP\<close> was handled after its exchange and only
    if one arrived after its exchange.

  \<^item> The loop carries both flags unchanged over the sleep into the next iteration.

  \<^item> Over the whole loop, however it ends: no reload starts and no \<open>SIGUSR1\<close> is sent
    unless the request was pending at the start or a signal of its kind is in the scripts.

  \<^item> When the first iteration reaches its end with the request pending or delivered before
    its drain, then over the whole loop, however many iterations follow and however the
    loop ends, the request is served: a reload starts, a \<open>SIGUSR1\<close> is sent.  When in
    addition no signal of its kind arrives later, the reload starts exactly once, and
    exactly one \<open>SIGUSR1\<close> is sent.

  \<^item> Over the whole of \<open>Run\<close>: no reload starts and no \<open>SIGUSR1\<close> is sent without a
    signal of its kind.

  \<^item> Signals handled during a reload.  A round of the polling loop or of the reaping loop
    of \<open>StartUnixWorker\<close> is run when the call with the script cut off before that round
    is still waiting; the requests of the signals handled in such a round, and of those
    handled before the two resetting stores, are pending when \<open>StartUnixWorker\<close> returns.
    The same holds for the rounds of the loop around the blocking \<open>waitpid\<close>, in which a
    reload waits for the old worker.

  \<^item> A reload that returns has run \<open>StartUnixWorker\<close> and, when that gave a new worker,
    the wait for the old one; what is pending after either is pending after the reload.

  \<^item> An iteration that reaches its end with the reload requested has run the reload with
    \<open>l_RequestedReload\<close> cleared; after it no further reload starts in the iteration, a
    reload that is pending after it is pending at the end of the iteration, and a reopening
    that is pending after it is served by one \<open>SIGUSR1\<close> to the worker current then.
\<close>

theorem edge_triggered_flags:
  "(umbrella_signals sigs st = Ret u st1 \<longrightarrow>
      l_RequestedReload st1 = (l_RequestedReload st \<or> delivered SIGHUP sigs)
      \<and> l_RequestedReopenLogs st1 = (l_RequestedReopenLogs st \<or> delivered SIGUSR1 sigs))
   \<and> (umbrella_signals sigs st = Ret u st1 \<and> delivered SIGHUP sigs \<longrightarrow>
        fst (exchange_RequestedReload st1)
        \<and> \<not> l_RequestedReload (snd (exchange_RequestedReload st1))
        \<and> \<not> fst (exchange_RequestedReload (snd (exchange_RequestedReload st1)))
        \<and> reload_if_requested env l st1 = reload env l (snd (exchange_RequestedReload st1))
        \<and> reload_if_requested env l (snd (exchange_RequestedReload st1))
            = Ret l (snd (exchange_RequestedReload st1)))
   \<and> (umbrella_signals sigs st = Ret u st1 \<and> delivered SIGUSR1 sigs \<longrightarrow>
        fst (exchange_RequestedReopenLogs st1)
        \<and> \<not> l_RequestedReopenLogs (snd (exchange_RequestedReopenLogs st1))
        \<and> \<not> fst (exchange_RequestedReopenLogs (snd (exchange_RequestedReopenLogs st1)))
        \<and> trace (reopen_logs_if_requested l st1)
            = trace st1 @ [ELog (LogForwardReopen SIGUSR1 (currentWorker l)),
                           EKill (currentWorker l) SIGUSR1]
        \<and> reopen_logs_if_requested l (reopen_logs_if_requested l st1)
            = reopen_logs_if_requested l st1)
   \<and> (l_RequestedReopenLogs (snd (exchange_RequestedReload st)) = l_RequestedReopenLogs st
      \<and> l_RequestedReload (snd (exchange_RequestedReopenLogs st)) = l_RequestedReload st)
   \<and> (\<exists>evs. trace (res_state (reload env l st))
               = trace (res_state (StartUnixWorker (it_spawn env)
                          (emit (ESdNotify ''RELOADING=1'') (emit (ELog LogReloadStart) st))))
                 @ evs)
   \<and> ((l_RequestedReload st \<longrightarrow> l_RequestedReload (res_state (reload env l st)))
      \<and> (l_RequestedReopenLogs st \<longrightarrow> l_RequestedReopenLogs (res_state (reload env l st))))
   \<and> (iteration env l st = Ret (ro, l') st' \<and> l_TermSignal st \<noteq> SIGUSR1 \<longrightarrow>
        (\<exists>evs. trace st' = trace st @ evs
           \<and> length (filter is_reloading evs)
                = (if l_RequestedReload st
                      \<or> delivered SIGHUP (it_sigs_term env @ it_sigs_reload env)
                   then 1 else 0)
           \<and> (l_RequestedReopenLogs st \<or> delivered SIGUSR1 (loop_sigs env) \<longrightarrow>
                 filter is_reopen_kill evs = [EKill (currentWorker l') SIGUSR1])
           \<and> length (filter is_reopen_kill evs) \<le> 1
           \<and> (filter is_reopen_kill evs \<noteq> [] \<longrightarrow>
                 l_RequestedReopenLogs st \<or> delivered SIGUSR1 (loop_sigs env)
                 \<or> (l_RequestedReload st
                     \<or> delivered SIGHUP (it_sigs_term env @ it_sigs_reload env))
                    \<and> delivered SIGUSR1 (reload_sigs env))
           \<and> \<not> l_RequestedReopenLogs st'
           \<and> (delivered SIGHUP (it_sigs_reopen env) \<longrightarrow> l_RequestedReload st')
           \<and> (l_RequestedReload st' \<longrightarrow>
                 delivered SIGHUP (it_sigs_reopen env)
                 \<or> (l_RequestedReload st
                     \<or> delivered SIGHUP (it_sigs_term env @ it_sigs_reload env))
                    \<and> delivered SIGHUP (reload_sigs env))
           \<and> l_TermSignal st' \<noteq> SIGUSR1))
   \<and> (iteration env l st = Ret (None, l') st' \<longrightarrow>
        umbrella_loop (env # envs) l st = umbrella_loop envs l' (emit ESleep st')
        \<and> l_RequestedReload (emit ESleep st') = l_RequestedReload st'
        \<and> l_RequestedReopenLogs (emit ESleep st') = l_RequestedReopenLogs st')
   \<and> (l_TermSignal st \<noteq> SIGUSR1 \<longrightarrow>
        (\<exists>evs. trace (res_state (umbrella_loop envs l st)) = trace st @ evs
           \<and> (filter is_reloading evs \<noteq> [] \<longrightarrow>
                 l_RequestedReload st
                 \<or> (\<exists>e \<in> set envs. delivered SIGHUP (loop_sigs e @ reload_sigs e)))
           \<and> (filter is_reopen_kill evs \<noteq> [] \<longrightarrow>
                 l_RequestedReopenLogs st
                 \<or> (\<exists>e \<in> set envs. delivered SIGUSR1 (loop_sigs e @ reload_sigs e)))))
   \<and> (iteration env l st = Ret (ro, l') st' \<and> l_TermSignal st \<noteq> SIGUSR1 \<longrightarrow>
        (\<exists>evs. trace (res_state (umbrella_loop (env # envs) l st)) = trace st @ evs
           \<and> (l_RequestedReload st
               \<or> delivered SIGHUP (it_sigs_term env @ it_sigs_reload env)
               \<longrightarrow> filter is_reloading evs \<noteq> [])
           \<and> (l_RequestedReopenLogs st \<or> delivered SIGUSR1 (loop_sigs env)
               \<longrightarrow> filter is_reopen_kill evs \<noteq> [])
           \<and> ((l_RequestedReload st
                \<or> delivered SIGHUP (it_sigs_term env @ it_sigs_reload env))
               \<and> \<not> delivered SIGHUP (it_sigs_reopen env @ reload_sigs env)
               \<and> (\<forall>e \<in> set envs. \<not> delivered SIGHUP (loop_sigs e @ reload_sigs e))
               \<longrightarrow> length (filter is_reloading evs) = 1)
           \<and> ((l_RequestedReopenLogs st \<or> delivered SIGUSR1 (loop_sigs env))
               \<and> (\<forall>e \<in> set envs. \<not> delivered SIGUSR1 (loop_sigs e @ reload_sigs e))
               \<longrightarrow> filter is_reopen_kill evs = [EKill (currentWorker l') SIGUSR1])))
   \<and> (l_TermSignal st \<noteq> SIGUSR1 \<longrightarrow>
        (\<exists>evs. trace (res_state (Run renv st)) = trace st @ evs
           \<and> (filter is_reloading evs \<noteq> [] \<longrightarrow>
                 l_RequestedReload st \<or> delivered SIGHUP (spawn_sigs (first_spawn renv))
                 \<or> (\<exists>e \<in> set (iterations renv).
                       delivered SIGHUP (loop_sigs e @ reload_sigs e)))
           \<and> (filter is_reopen_kill evs \<noteq> [] \<longrightarrow>
                 l_RequestedReopenLogs st \<or> delivered SIGUSR1 (spawn_sigs (first_spawn renv))
                 \<or> (\<exists>e \<in> set (iterations renv).
                       delivered SIGUSR1 (loop_sigs e @ reload_sigs e)))))
   \<and> (StartUnixWorker sp st = Ret p st' \<and> polls sp = ps1 @ (now, sigs) # ps2
       \<and> StartUnixWorker (sp\<lparr>polls := ps1\<rparr>) st = Waiting s
       \<longrightarrow> pending_after sigs st')
   \<and> (StartUnixWorker sp st = Ret p st' \<and> reap sp = rs1 @ (sigs, wr, now) # rs2
       \<and> StartUnixWorker (sp\<lparr>reap := rs1\<rparr>) st = Waiting s
       \<longrightarrow> pending_after sigs st')
   \<and> (StartUnixWorker sp st = Ret p st'
       \<longrightarrow> pending_after (sigs_reset_pid sp @ sigs_reset_state sp) st')
   \<and> (waitpid_retry pid (ws1 @ (sigs, wr, now) # ws2) st = Ret u st'
       \<and> waitpid_retry pid ws1 st = Waiting s
       \<longrightarrow> pending_after sigs st')
   \<and> (reload env l st = Ret l2 st' \<longrightarrow>
        (\<exists>nw s1.
           StartUnixWorker (it_spawn env)
               (emit (ESdNotify ''RELOADING=1'') (emit (ELog LogReloadStart) st)) = Ret nw s1
           \<and> kept s1 st'
           \<and> (nw \<noteq> -1 \<longrightarrow>
                (\<exists>u s3. waitpid_retry (currentWorker l) (it_wait_old env)
                            (emit (EKill (currentWorker l) SIGTERM)
                               (emit (ELog (LogReloadDone nw)) s1)) = Ret u s3
                         \<and> kept s3 st'))))
   \<and> (iteration env l st = Ret (ro, l') st' \<and> l_TermSignal st \<noteq> SIGUSR1
       \<and> (l_RequestedReload st \<or> delivered SIGHUP (it_sigs_term env @ it_sigs_reload env))
       \<longrightarrow>
        (\<exists>l1 s3 l2 s4 evs.
           reload env l1 s3 = Ret l2 s4 \<and> \<not> l_RequestedReload s3
           \<and> trace st' = trace s4 @ evs \<and> filter is_reloading evs = []
           \<and> (l_RequestedReload s4 \<longrightarrow> l_RequestedReload st')
           \<and> (l_RequestedReopenLogs s4 \<longrightarrow>
                 filter is_reopen_kill evs = [EKill (currentWorker l') SIGUSR1])))"
proof -
  have c1: "umbrella_signals sigs st = Ret u st1 \<longrightarrow>
      l_RequestedReload st1 = (l_RequestedReload st \<or> delivered SIGHUP sigs)
      \<and> l_RequestedReopenLogs st1 = (l_RequestedReopenLogs st \<or> delivered SIGUSR1 sigs)"
    using umbrella_signals_exact [of sigs st u st1] by simp
  have c2: "umbrella_signals sigs st = Ret u st1 \<and> delivered SIGHUP sigs \<longrightarrow>
        fst (exchange_RequestedReload st1)
        \<and> \<not> l_RequestedReload (snd (exchange_RequestedReload st1))
        \<and> \<not> fst (exchange_RequestedReload (snd (exchange_RequestedReload st1)))
        \<and> reload_if_requested env l st1 = reload env l (snd (exchange_RequestedReload st1))
        \<and> reload_if_requested env l (snd (exchange_RequestedReload st1))
            = Ret l (snd (exchange_RequestedReload st1))"
    using umbrella_signals_exact [of sigs st u st1]
    by (simp add: exchange_RequestedReload_def reload_if_requested_def)
  have c3: "umbrella_signals sigs st = Ret u st1 \<and> delivered SIGUSR1 sigs \<longrightarrow>
        fst (exchange_RequestedReopenLogs st1)
        \<and> \<not> l_RequestedReopenLogs (snd (exchange_RequestedReopenLogs st1))
        \<and> \<not> fst (exchange_RequestedReopenLogs (snd (exchange_RequestedReopenLogs st1)))
        \<and> trace (reopen_logs_if_requested l st1)
            = trace st1 @ [ELog (LogForwardReopen SIGUSR1 (currentWorker l)),
                           EKill (currentWorker l) SIGUSR1]
        \<and> reopen_logs_if_requested l (reopen_logs_if_requested l st1)
            = reopen_logs_if_requested l st1"
    using umbrella_signals_exact [of sigs st u st1]
    by (simp add: exchange_RequestedReopenLogs_def reopen_logs_if_requested_def emit_def)
  have c4: "l_RequestedReopenLogs (snd (exchange_RequestedReload st)) = l_RequestedReopenLogs st
      \<and> l_RequestedReload (snd (exchange_RequestedReopenLogs st)) = l_RequestedReload st"
    by (simp add: exchange_RequestedReload_def exchange_RequestedReopenLogs_def)
  note c5 = reload_spawns [of env l st]
  have c6: "(l_RequestedReload st \<longrightarrow> l_RequestedReload (res_state (reload env l st)))
      \<and> (l_RequestedReopenLogs st \<longrightarrow> l_RequestedReopenLogs (res_state (reload env l st)))"
    using reload_within [of env st l] by (simp add: flags_within_def)
  have c7: "iteration env l st = Ret (ro, l') st' \<and> l_TermSignal st \<noteq> SIGUSR1 \<longrightarrow>
        (\<exists>evs. trace st' = trace st @ evs
           \<and> length (filter is_reloading evs)
                = (if l_RequestedReload st
                      \<or> delivered SIGHUP (it_sigs_term env @ it_sigs_reload env)
                   then 1 else 0)
           \<and> (l_RequestedReopenLogs st \<or> delivered SIGUSR1 (loop_sigs env) \<longrightarrow>
                 filter is_reopen_kill evs = [EKill (currentWorker l') SIGUSR1])
           \<and> length (filter is_reopen_kill evs) \<le> 1
           \<and> (filter is_reopen_kill evs \<noteq> [] \<longrightarrow>
                 l_RequestedReopenLogs st \<or> delivered SIGUSR1 (loop_sigs env)
                 \<or> (l_RequestedReload st
                     \<or> delivered SIGHUP (it_sigs_term env @ it_sigs_reload env))
                    \<and> delivered SIGUSR1 (reload_sigs env))
           \<and> \<not> l_RequestedReopenLogs st'
           \<and> (delivered SIGHUP (it_sigs_reopen env) \<longrightarrow> l_RequestedReload st')
           \<and> (l_RequestedReload st' \<longrightarrow>
                 delivered SIGHUP (it_sigs_reopen env)
                 \<or> (l_RequestedReload st
                     \<or> delivered SIGHUP (it_sigs_term env @ it_sigs_reload env))
                    \<and> delivered SIGHUP (reload_sigs env))
           \<and> l_TermSignal st' \<noteq> SIGUSR1)"
    using iteration_requests [of env l st ro l' st'] by blast
  have c8: "iteration env l st = Ret (None, l') st' \<longrightarrow>
        umbrella_loop (env # envs) l st = umbrella_loop envs l' (emit ESleep st')
        \<and> l_RequestedReload (emit ESleep st') = l_RequestedReload st'
        \<and> l_RequestedReopenLogs (emit ESleep st') = l_RequestedReopenLogs st'"
    by (simp add: emit_def)
  have c9: "l_TermSignal st \<noteq> SIGUSR1 \<longrightarrow>
        (\<exists>evs. trace (res_state (umbrella_loop envs l st)) = trace st @ evs
           \<and> (filter is_reloading evs \<noteq> [] \<longrightarrow>
                 l_RequestedReload st
                 \<or> (\<exists>e \<in> set envs. delivered SIGHUP (loop_sigs e @ reload_sigs e)))
           \<and> (filter is_reopen_kill evs \<noteq> [] \<longrightarrow>
                 l_RequestedReopenLogs st
                 \<or> (\<exists>e \<in> set envs. delivered SIGUSR1 (loop_sigs e @ reload_sigs e))))"
    using umbrella_loop_caused [of st envs l] unfolding caused_def by blast
  have c10: "iteration env l st = Ret (ro, l') st' \<and> l_TermSignal st \<noteq> SIGUSR1 \<longrightarrow>
        (\<exists>evs. trace (res_state (umbrella_loop (env # envs) l st)) = trace st @ evs
           \<and> (l_RequestedReload st
               \<or> delivered SIGHUP (it_sigs_term env @ it_sigs_reload env)
               \<longrightarrow> filter is_reloading evs \<noteq> [])
           \<and> (l_RequestedReopenLogs st \<or> delivered SIGUSR1 (loop_sigs env)
               \<longrightarrow> filter is_reopen_kill evs \<noteq> [])
           \<and> ((l_RequestedReload st
                \<or> delivered SIGHUP (it_sigs_term env @ it_sigs_reload env))
               \<and> \<not> delivered SIGHUP (it_sigs_reopen env @ reload_sigs env)
               \<and> (\<forall>e \<in> set envs. \<not> delivered SIGHUP (loop_sigs e @ reload_sigs e))
               \<longrightarrow> length (filter is_reloading evs) = 1)
           \<and> ((l_RequestedReopenLogs st \<or> delivered SIGUSR1 (loop_sigs env))
               \<and> (\<forall>e \<in> set envs. \<not> delivered SIGUSR1 (loop_sigs e @ reload_sigs e))
               \<longrightarrow> filter is_reopen_kill evs = [EKill (currentWorker l') SIGUSR1]))"
    using umbrella_loop_acts_once [of env l st ro l' st' envs] by blast
  have c11: "l_TermSignal st \<noteq> SIGUSR1 \<longrightarrow>
        (\<exists>evs. trace (res_state (Run renv st)) = trace st @ evs
           \<and> (filter is_reloading evs \<noteq> [] \<longrightarrow>
                 l_RequestedReload st \<or> delivered SIGHUP (spawn_sigs (first_spawn renv))
                 \<or> (\<exists>e \<in> set (iterations renv).
                       delivered SIGHUP (loop_sigs e @ reload_sigs e)))
           \<and> (filter is_reopen_kill evs \<noteq> [] \<longrightarrow>
                 l_RequestedReopenLogs st \<or> delivered SIGUSR1 (spawn_sigs (first_spawn renv))
                 \<or> (\<exists>e \<in> set (iterations renv).
                       delivered SIGUSR1 (loop_sigs e @ reload_sigs e))))"
    using Run_caused [of st renv] unfolding caused_def by blast
  have c12: "StartUnixWorker sp st = Ret p st' \<and> polls sp = ps1 @ (now, sigs) # ps2
       \<and> StartUnixWorker (sp\<lparr>polls := ps1\<rparr>) st = Waiting s
       \<longrightarrow> pending_after sigs st'"
    using StartUnixWorker_poll_round [of sp st p st' ps1 now sigs ps2 s] by blast
  have c13: "StartUnixWorker sp st = Ret p st' \<and> reap sp = rs1 @ (sigs, wr, now) # rs2
       \<and> StartUnixWorker (sp\<lparr>reap := rs1\<rparr>) st = Waiting s
       \<longrightarrow> pending_after sigs st'"
    using StartUnixWorker_reap_round [of sp st p st' rs1 sigs wr now rs2 s] by blast
  have c14: "StartUnixWorker sp st = Ret p st'
       \<longrightarrow> pending_after (sigs_reset_pid sp @ sigs_reset_state sp) st'"
    using StartUnixWorker_reset_batches [of sp st p st'] by blast
  have c15: "waitpid_retry pid (ws1 @ (sigs, wr, now) # ws2) st = Ret u st'
       \<and> waitpid_retry pid ws1 st = Waiting s
       \<longrightarrow> pending_after sigs st'"
    using waitpid_retry_round [of pid ws1 sigs wr now ws2 st u st' s] by blast
  have c16: "reload env l st = Ret l2 st' \<longrightarrow>
        (\<exists>nw s1.
           StartUnixWorker (it_spawn env)
               (emit (ESdNotify ''RELOADING=1'') (emit (ELog LogReloadStart) st)) = Ret nw s1
           \<and> kept s1 st'
           \<and> (nw \<noteq> -1 \<longrightarrow>
                (\<exists>u s3. waitpid_retry (currentWorker l) (it_wait_old env)
                            (emit (EKill (currentWorker l) SIGTERM)
                               (emit (ELog (LogReloadDone nw)) s1)) = Ret u s3
                         \<and> kept s3 st')))"
    using reload_parts [of env l st l2 st'] by blast
  have c17: "iteration env l st = Ret (ro, l') st' \<and> l_TermSignal st \<noteq> SIGUSR1
       \<and> (l_RequestedReload st \<or> delivered SIGHUP (it_sigs_term env @ it_sigs_reload env))
       \<longrightarrow>
        (\<exists>l1 s3 l2 s4 evs.
           reload env l1 s3 = Ret l2 s4 \<and> \<not> l_RequestedReload s3
           \<and> trace st' = trace s4 @ evs \<and> filter is_reloading evs = []
           \<and> (l_RequestedReload s4 \<longrightarrow> l_RequestedReload st')
           \<and> (l_RequestedReopenLogs s4 \<longrightarrow>
                 filter is_reopen_kill evs = [EKill (currentWorker l') SIGUSR1]))"
    using iteration_reload_part [of env l st ro l' st'] by blast
  show ?thesis
    by (rule conjI [OF c1 conjI [OF c2 conjI [OF c3 conjI [OF c4 conjI [OF c5 conjI [OF c6
          conjI [OF c7 conjI [OF c8 conjI [OF c9 conjI [OF c10 conjI [OF c11 conjI [OF c12
          conjI [OF c13 conjI [OF c14 conjI [OF c15 conjI [OF c16 c17]]]]]]]]]]]]]]]])
qed

theorem edge_triggered_flags_witness:
  "iteration iter_requests (locals_init 4711) umbrella_init
     = Ret (None, (locals_init 4711)\<lparr>currentWorker := 4712\<rparr>)
         (umbrella_init\<lparr>l_LastNotifiedWatchdog := 100,
            trace := [ESdNotify ''WATCHDOG=1'', ELog LogReloadStart, ESdNotify ''RELOADING=1'',
                      ELog LogSpawning, EUninitializeBase, ESigBlock, EFork 4712, ESigUnblock,
                      ELog (LogSpawned 4712), ESleep, ELog LogWorkerLoaded, EInitializeBase,
                      ELog (LogReloadDone 4712), EKill 4711 SIGTERM,
                      EWaitpid 4711 False (reported 4711 (WExited 0)),
                      ELog LogWaitedForOld, EKill 4712 SIGUSR2, ESdNotify ''READY=1'',
                      ELog (LogForwardReopen SIGUSR1 4712), EKill 4712 SIGUSR1,
                      EWaitpid 4712 True still_running]\<rparr>)
   \<and> l_TermSignal umbrella_init \<noteq> SIGUSR1
   \<and> delivered SIGHUP (it_sigs_term iter_requests @ it_sigs_reload iter_requests)
   \<and> delivered SIGUSR1 (loop_sigs iter_requests)
   \<and> \<not> delivered SIGHUP (it_sigs_reopen iter_requests @ reload_sigs iter_requests)
   \<and> (\<exists>evs. trace (res_state (umbrella_loop
                  [iter_requests, iter_idle 100.8 still_running,
                   iter_idle 101 (reported 4712 (WExited 0))]
                  (locals_init 4711) umbrella_init))
               = trace umbrella_init @ evs
          \<and> length (filter is_reloading evs) = 1
          \<and> filter is_reopen_kill evs = [EKill 4712 SIGUSR1])
   \<and> umbrella_signals [(SIGHUP, 1), (SIGUSR1, 2), (SIGHUP, 3)] umbrella_init
       = Ret () (umbrella_init\<lparr>l_RequestedReload := True, l_RequestedReopenLogs := True\<rparr>)
   \<and> fst (exchange_RequestedReload
            (umbrella_init\<lparr>l_RequestedReload := True, l_RequestedReopenLogs := True\<rparr>))
   \<and> \<not> fst (exchange_RequestedReload (snd (exchange_RequestedReload
            (umbrella_init\<lparr>l_RequestedReload := True, l_RequestedReopenLogs := True\<rparr>))))
   \<and> fst (exchange_RequestedReopenLogs
            (umbrella_init\<lparr>l_RequestedReload := True, l_RequestedReopenLogs := True\<rparr>))
   \<and> \<not> fst (exchange_RequestedReopenLogs (snd (exchange_RequestedReopenLogs
            (umbrella_init\<lparr>l_RequestedReload := True, l_RequestedReopenLogs := True\<rparr>))))
   \<and> StartUnixWorker (spawn_loads_hup 4712) umbrella_init
       = Ret 4712
          (umbrella_init\<lparr>l_RequestedReload := True, l_LastNotifiedWatchdog := 100,
            trace := [ELog LogSpawning, EUninitializeBase, ESigBlock, EFork 4712, ESigUnblock,
                      ELog (LogSpawned 4712), ESdNotify ''WATCHDOG=1'', ESleep,
                      ELog LogWorkerLoaded, EInitializeBase]\<rparr>)
   \<and> polls (spawn_loads_hup 4712)
       = [] @ (100, [(SIGHUP, 1)]) # [(100.2, [(SIGUSR2, 4712)])]
   \<and> StartUnixWorker ((spawn_loads_hup 4712)\<lparr>polls := []\<rparr>) umbrella_init
       = Waiting
          (umbrella_init\<lparr>l_CurrentlyStartingUnixWorkerPid := 4712,
            trace := [ELog LogSpawning, EUninitializeBase, ESigBlock, EFork 4712, ESigUnblock,
                      ELog (LogSpawned 4712)]\<rparr>)
   \<and> pending_after [(SIGHUP, 1)]
          (umbrella_init\<lparr>l_RequestedReload := True, l_LastNotifiedWatchdog := 100,
            trace := [ELog LogSpawning, EUninitializeBase, ESigBlock, EFork 4712, ESigUnblock,
                      ELog (LogSpawned 4712), ESdNotify ''WATCHDOG=1'', ESleep,
                      ELog LogWorkerLoaded, EInitializeBase]\<rparr>)"
proof -
  let ?H = "umbrella_init\<lparr>l_RequestedReload := True, l_LastNotifiedWatchdog := 100,
            trace := [ELog LogSpawning, EUninitializeBase, ESigBlock, EFork 4712, ESigUnblock,
                      ELog (LogSpawned 4712), ESdNotify ''WATCHDOG=1'', ESleep,
                      ELog LogWorkerLoaded, EInitializeBase]\<rparr>"
  let ?W = "umbrella_init\<lparr>l_CurrentlyStartingUnixWorkerPid := 4712,
            trace := [ELog LogSpawning, EUninitializeBase, ESigBlock, EFork 4712, ESigUnblock,
                      ELog (LogSpawned 4712)]\<rparr>"
  have h1: "StartUnixWorker (spawn_loads_hup 4712) umbrella_init = Ret 4712 ?H"
    by (simp add: spawn_loads_hup_def eval_defs)
  have h2: "polls (spawn_loads_hup 4712)
       = [] @ (100, [(SIGHUP, 1)]) # [(100.2, [(SIGUSR2, 4712)])]"
    by (simp add: spawn_loads_hup_def)
  have h3: "StartUnixWorker ((spawn_loads_hup 4712)\<lparr>polls := []\<rparr>) umbrella_init
       = Waiting ?W"
    by (simp add: spawn_loads_hup_def eval_defs)
  note U = edge_triggered_flags [where sp = "spawn_loads_hup 4712" and st = umbrella_init
      and p = 4712 and st' = ?H and ?ps1.0 = "[]" and now = 100 and sigs = "[(SIGHUP, 1)]"
      and ?ps2.0 = "[(100.2, [(SIGUSR2, 4712)])]" and s = ?W]
  from U [THEN conjunct2, THEN conjunct2, THEN conjunct2, THEN conjunct2, THEN conjunct2,
      THEN conjunct2, THEN conjunct2, THEN conjunct2, THEN conjunct2, THEN conjunct2,
      THEN conjunct2, THEN conjunct1] h1 h2 h3
  have h4: "pending_after [(SIGHUP, 1)] ?H"
    by blast
  let ?l = "locals_init 4711"
  let ?l' = "(locals_init 4711)\<lparr>currentWorker := 4712\<rparr>"
  let ?S1 = "umbrella_init\<lparr>l_LastNotifiedWatchdog := 100,
            trace := [ESdNotify ''WATCHDOG=1'', ELog LogReloadStart, ESdNotify ''RELOADING=1'',
                      ELog LogSpawning, EUninitializeBase, ESigBlock, EFork 4712, ESigUnblock,
                      ELog (LogSpawned 4712), ESleep, ELog LogWorkerLoaded, EInitializeBase,
                      ELog (LogReloadDone 4712), EKill 4711 SIGTERM,
                      EWaitpid 4711 False (reported 4711 (WExited 0)),
                      ELog LogWaitedForOld, EKill 4712 SIGUSR2, ESdNotify ''READY=1'',
                      ELog (LogForwardReopen SIGUSR1 4712), EKill 4712 SIGUSR1,
                      EWaitpid 4712 True still_running]\<rparr>"
  let ?envs = "[iter_idle 100.8 still_running, iter_idle 101 (reported 4712 (WExited 0))]"
  let ?sigs = "[(SIGHUP, 1), (SIGUSR1, 2), (SIGHUP, 3::int)]"
  let ?s1 = "umbrella_init\<lparr>l_RequestedReload := True, l_RequestedReopenLogs := True\<rparr>"
  have it: "iteration iter_requests ?l umbrella_init = Ret (None, ?l') ?S1"
    by (rule iter_requests_run)
  have ts: "l_TermSignal umbrella_init \<noteq> SIGUSR1"
    by (simp add: umbrella_init_def sig_defs)
  have d1: "delivered SIGHUP (it_sigs_term iter_requests @ it_sigs_reload iter_requests)"
    and d2: "delivered SIGUSR1 (loop_sigs iter_requests)"
    and d3: "\<not> delivered SIGHUP (it_sigs_reopen iter_requests @ reload_sigs iter_requests)"
    by (simp_all add: iter_requests_def loop_sigs_def reload_sigs_def spawn_sigs_def
          spawn_loads_def sig_defs)
  have q1: "\<forall>e \<in> set ?envs. \<not> delivered SIGHUP (loop_sigs e @ reload_sigs e)"
    and q2: "\<forall>e \<in> set ?envs. \<not> delivered SIGUSR1 (loop_sigs e @ reload_sigs e)"
    by (simp_all add: iter_idle_def loop_sigs_def reload_sigs_def spawn_sigs_def
          spawn_loads_def sig_defs)
  have cw: "currentWorker ?l' = 4712" by simp
  note T = edge_triggered_flags [where sigs = ?sigs and st = umbrella_init and u = "()"
      and ?st1.0 = ?s1 and env = iter_requests and l = ?l and ro = None and l' = ?l'
      and st' = ?S1 and envs = ?envs]
  note T10 = T [THEN conjunct2, THEN conjunct2, THEN conjunct2, THEN conjunct2,
      THEN conjunct2, THEN conjunct2, THEN conjunct2, THEN conjunct2, THEN conjunct2,
      THEN conjunct1]
  from T10 it ts obtain evs where
    t: "trace (res_state (umbrella_loop (iter_requests # ?envs) ?l umbrella_init))
          = trace umbrella_init @ evs"
    and a: "(l_RequestedReload umbrella_init
                \<or> delivered SIGHUP (it_sigs_term iter_requests @ it_sigs_reload iter_requests))
               \<and> \<not> delivered SIGHUP (it_sigs_reopen iter_requests @ reload_sigs iter_requests)
               \<and> (\<forall>e \<in> set ?envs. \<not> delivered SIGHUP (loop_sigs e @ reload_sigs e))
               \<longrightarrow> length (filter is_reloading evs) = 1"
    and b: "(l_RequestedReopenLogs umbrella_init \<or> delivered SIGUSR1 (loop_sigs iter_requests))
               \<and> (\<forall>e \<in> set ?envs. \<not> delivered SIGUSR1 (loop_sigs e @ reload_sigs e))
               \<longrightarrow> filter is_reopen_kill evs = [EKill (currentWorker ?l') SIGUSR1]"
    by blast
  from a d1 d3 q1 have a': "length (filter is_reloading evs) = 1" by blast
  from b d2 q2 have "filter is_reopen_kill evs = [EKill (currentWorker ?l') SIGUSR1]" by blast
  then have b': "filter is_reopen_kill evs = [EKill 4712 SIGUSR1]"
    by (simp only: cw)
  from t a' b' have L: "\<exists>evs. trace (res_state (umbrella_loop (iter_requests # ?envs) ?l
                  umbrella_init)) = trace umbrella_init @ evs
          \<and> length (filter is_reloading evs) = 1
          \<and> filter is_reopen_kill evs = [EKill 4712 SIGUSR1]"
    by blast
  have d: "umbrella_signals ?sigs umbrella_init = Ret () ?s1"
    by (simp add: UmbrellaSignalHandler_def umbrella_init_def sig_defs)
  have e1: "delivered SIGHUP ?sigs" and e2: "delivered SIGUSR1 ?sigs"
    by simp_all
  from T [THEN conjunct2, THEN conjunct1] d e1
  have R: "fst (exchange_RequestedReload ?s1)
      \<and> \<not> fst (exchange_RequestedReload (snd (exchange_RequestedReload ?s1)))"
    by blast
  from T [THEN conjunct2, THEN conjunct2, THEN conjunct1] d e2
  have X: "fst (exchange_RequestedReopenLogs ?s1)
      \<and> \<not> fst (exchange_RequestedReopenLogs (snd (exchange_RequestedReopenLogs ?s1)))"
    by blast
  from it ts d1 d2 d3 L d R X h1 h2 h3 h4 show ?thesis
    by (intro conjI) (erule conjunct1 conjunct2 | assumption)+
qed

end
